theory Spec2Isabelle
  imports Complex_Main "HOL-Library.Char_ord"
begin

section \<open>Python text primitives\<close>

text \<open>
  Text is modelled as \<^typ>\<open>string\<close>: a list of 8-bit characters, read as the code points
  below 256. The patterns, the tables and the template of the two scripts are ASCII. A
  Python \<open>float\<close> is modelled as a real number (a finite value, not NaN), a Python \<open>int\<close>
  as an integer.
\<close>

definition ascii_alpha :: "char \<Rightarrow> bool" where
  "ascii_alpha c = ((CHR ''A'' \<le> c \<and> c \<le> CHR ''Z'') \<or> (CHR ''a'' \<le> c \<and> c \<le> CHR ''z''))"

definition ascii_digit :: "char \<Rightarrow> bool" where
  "ascii_digit c = (CHR ''0'' \<le> c \<and> c \<le> CHR ''9'')"

definition py_space :: "char \<Rightarrow> bool" where
  \<comment> \<open>\<open>str.isspace\<close> and the pattern class \<open>\s\<close>, on the code points below 256.\<close>
  "py_space c = (c \<in> {CHR 0x09, CHR 0x0A, CHR 0x0B, CHR 0x0C, CHR 0x0D,
                        CHR 0x1C, CHR 0x1D, CHR 0x1E, CHR 0x1F, CHR 0x20, CHR 0x85, CHR 0xA0})"

fun tails :: "'a list \<Rightarrow> 'a list list" where
  "tails [] = [[]]"
| "tails (x # xs) = (x # xs) # tails xs"

definition contains :: "string \<Rightarrow> string \<Rightarrow> bool" where
  \<comment> \<open>\<open>sub in s\<close>\<close>
  "contains sub s = list_ex (\<lambda>t. take (length sub) t = sub) (tails s)"

fun join :: "string \<Rightarrow> string list \<Rightarrow> string" where
  \<comment> \<open>\<open>sep.join(xs)\<close>\<close>
  "join sep [] = []"
| "join sep [x] = x"
| "join sep (x # y # ys) = x @ sep @ join sep (y # ys)"

definition dict_get :: "('k \<times> 'v) list \<Rightarrow> 'k \<Rightarrow> 'v \<Rightarrow> 'v" where
  \<comment> \<open>\<open>d.get(k, default)\<close> on a dict literal\<close>
  "dict_get d k dflt = (case map_of d k of None \<Rightarrow> dflt | Some v \<Rightarrow> v)"

section \<open>Regular expressions of the scripts\<close>

text \<open>
  Each pattern of the scripts is a sequence of character classes, each with a repetition
  range (\<open>+\<close> is \<open>{1,}\<close>, \<open>?\<close> is \<open>{0,1}\<close>, a bare class is \<open>{1,1}\<close>), optionally anchored
  by \<open>^\<close> and \<open>$\<close>. Only the truth value of \<open>pattern.search(s)\<close> is used, so the matcher
  decides whether some match exists: it tries every repetition count the class allows.
\<close>

type_synonym piece = "(char \<Rightarrow> bool) \<times> nat \<times> nat option"

record regex =
  bol :: bool
  pieces :: "piece list"
  eol :: bool

fun rx_match :: "piece list \<Rightarrow> bool \<Rightarrow> string \<Rightarrow> bool" where
  "rx_match [] at_end s = (if at_end then (s = [] \<or> s = [CHR 0x0A]) else True)"
| "rx_match ((cls, lo, hi) # ps) at_end s =
     (let run = length (takeWhile cls s);
          top = (case hi of None \<Rightarrow> run | Some h \<Rightarrow> min h run)
      in list_ex (\<lambda>n. rx_match ps at_end (drop n s)) [lo ..< Suc top])"

definition re_search :: "regex \<Rightarrow> string \<Rightarrow> bool" where
  \<comment> \<open>\<open>bool(pattern.search(s))\<close>: without \<open>^\<close> a match may start at any position.\<close>
  "re_search r s =
     (if bol r then rx_match (pieces r) (eol r) s
      else list_ex (rx_match (pieces r) (eol r)) (tails s))"

definition EMAIL_RE :: regex where
  \<comment> \<open>\<open>[A-Za-z0-9._%+-]+@[A-Za-z0-9.-]+\.[A-Za-z]{2,}\<close>\<close>
  "EMAIL_RE = \<lparr> bol = False,
      pieces = [(\<lambda>c. ascii_alpha c \<or> ascii_digit c \<or> c \<in> {CHR ''.'', CHR ''_'', CHR ''%'', CHR ''+'', CHR ''-''}, 1, None),
                (\<lambda>c. c = CHR ''@'', 1, Some 1),
                (\<lambda>c. ascii_alpha c \<or> ascii_digit c \<or> c \<in> {CHR ''.'', CHR ''-''}, 1, None),
                (\<lambda>c. c = CHR ''.'', 1, Some 1),
                (ascii_alpha, 2, None)],
      eol = False \<rparr>"

definition PHONE_RE :: regex where
  \<comment> \<open>\<open>\+?\d[\d\s-]{6,}\d\<close>\<close>
  "PHONE_RE = \<lparr> bol = False,
      pieces = [(\<lambda>c. c = CHR ''+'', 0, Some 1),
                (ascii_digit, 1, Some 1),
                (\<lambda>c. ascii_digit c \<or> py_space c \<or> c = CHR ''-'', 6, None),
                (ascii_digit, 1, Some 1)],
      eol = False \<rparr>"

definition IG_RE :: regex where
  \<comment> \<open>\<open>^@?[A-Za-z0-9_.]{2,30}$\<close>\<close>
  "IG_RE = \<lparr> bol = True,
      pieces = [(\<lambda>c. c = CHR ''@'', 0, Some 1),
                (\<lambda>c. ascii_alpha c \<or> ascii_digit c \<or> c \<in> {CHR ''_'', CHR ''.''}, 2, Some 30)],
      eol = True \<rparr>"

section \<open>cursor\_dxb\_video\_agent.py: the scored lead and \<open>qualify\<close>\<close>

definition NICHE_WEIGHTS :: "(string \<times> int) list" where
  "NICHE_WEIGHTS = [(''real estate'', 3), (''restaurant'', 2), (''gym'', 2), (''clinic'', 3),
                    (''auto'', 2), (''salon'', 2), (''cafe'', 2)]"

definition PLATFORM_WEIGHTS :: "(string \<times> int) list" where
  "PLATFORM_WEIGHTS = [(''email'', 3), (''whatsapp'', 3), (''instagram'', 2), (''linkedin'', 2)]"

text \<open>The dataclass \<open>Lead\<close> of the video agent (\<open>id\<close>, \<open>name\<close> and \<open>notes\<close> are \<open>vid\<close>, \<open>vname\<close> and \<open>vnotes\<close> here).\<close>

record VLead =
  vid :: string
  vname :: string
  niche :: string
  contact :: string
  platform :: string
  score :: int
  vnotes :: string

definition bonus :: "bool \<Rightarrow> int \<Rightarrow> string \<Rightarrow> int \<times> string list \<Rightarrow> int \<times> string list" where
  \<comment> \<open>\<open>if cond: score += k; notes.append(tag)\<close>\<close>
  "bonus cond k tag acc = (if cond then (fst acc + k, snd acc @ [tag]) else acc)"

definition qualify :: "VLead \<Rightarrow> string \<Rightarrow> VLead" where
  "qualify lead city =
     (let acc0 = (0 + dict_get NICHE_WEIGHTS (niche lead) 1
                    + dict_get PLATFORM_WEIGHTS (platform lead) 1, []);
          acc1 = bonus (platform lead = ''email'' \<and> re_search EMAIL_RE (contact lead))
                   2 ''valid_email'' acc0;
          acc2 = bonus (platform lead = ''whatsapp'' \<and> re_search PHONE_RE (contact lead))
                   2 ''valid_phone'' acc1;
          acc3 = bonus (platform lead = ''instagram'' \<and> re_search IG_RE (contact lead))
                   1 ''handle_ok'' acc2;
          acc4 = bonus (platform lead = ''linkedin'' \<and> contains ''linkedin.com'' (contact lead))
                   1 ''linkedin_url'' acc3;
          acc5 = bonus (niche lead \<in> {''real estate'', ''restaurant'', ''clinic'', ''auto'',
                                       ''salon'', ''gym'', ''cafe''})
                   1 ''visual_niche'' acc4
      in lead\<lparr> score := fst acc5, vnotes := join '','' (snd acc5) \<rparr>)"

section \<open>mian.py: more Python primitives\<close>

datatype exn = KeyError string | ValueError string | OverflowError string

type_synonym 'a result = "exn + 'a"

text \<open>The values the script passes to \<open>str.format\<close>: \<open>None\<close>, a string or an int.\<close>

datatype pyval = VNone | VStr string | VInt int

definition truthy :: "string option \<Rightarrow> bool" where
  \<comment> \<open>the truth value of an \<open>Optional[str]\<close>: neither \<open>None\<close> nor empty\<close>
  "truthy x = (case x of None \<Rightarrow> False | Some s \<Rightarrow> s \<noteq> [])"

definition or_none :: "string option \<Rightarrow> string option" where
  \<comment> \<open>\<open>x or None\<close>\<close>
  "or_none x = (if truthy x then x else None)"

fun split_ws :: "string \<Rightarrow> string \<Rightarrow> string list" where
  "split_ws cur [] = (if cur = [] then [] else [cur])"
| "split_ws cur (c # cs) =
     (if py_space c then (if cur = [] then split_ws [] cs else cur # split_ws [] cs)
      else split_ws (cur @ [c]) cs)"

definition py_split :: "string \<Rightarrow> string list" where
  \<comment> \<open>\<open>s.split()\<close>: the words between runs of whitespace\<close>
  "py_split s = split_ws [] s"

definition py_strip :: "string \<Rightarrow> string" where
  \<comment> \<open>\<open>s.strip()\<close>\<close>
  "py_strip s = rev (dropWhile py_space (rev (dropWhile py_space s)))"

fun str_nat :: "nat \<Rightarrow> string" where
  "str_nat n = (if n < 10 then [''0123456789'' ! n]
                else str_nat (n div 10) @ [''0123456789'' ! (n mod 10)])"

definition str_int :: "int \<Rightarrow> string" where
  \<comment> \<open>\<open>str(i)\<close>\<close>
  "str_int i = (if i < 0 then CHR ''-'' # str_nat (nat (- i)) else str_nat (nat i))"

fun py_str :: "pyval \<Rightarrow> string" where
  \<comment> \<open>how \<open>str.format\<close> renders a value with an empty format spec\<close>
  "py_str VNone = ''None''"
| "py_str (VStr s) = s"
| "py_str (VInt i) = str_int i"

text \<open>
  \<open>template.format(**kwargs)\<close>. The scanner reads the template left to right. Outside a
  replacement field, \<open>{{\<close> and \<open>}}\<close> are literal braces, a single \<open>{\<close> opens a field and a
  single \<open>}\<close> is a \<open>ValueError\<close>. Inside a field, everything up to the closing \<open>}\<close> is the
  field name, and the name is looked up among the keyword arguments as it stands: a name
  that is not a key is a \<open>KeyError\<close>. (Conversions \<open>!r\<close>, format specs \<open>:...\<close> and attribute
  or index access do not occur in the template of the script.) The second argument is
  \<open>None\<close> outside a field and the name read so far inside one.
\<close>

fun py_format :: "(string \<times> pyval) list \<Rightarrow> string option \<Rightarrow> string \<Rightarrow> string result" where
  "py_format kw None [] = Inr []"
| "py_format kw (Some nm) [] = Inl (ValueError ''expected } before end of string'')"
| "py_format kw None (c # cs) =
     (if c = CHR ''{'' then
        (case cs of
           d # ds \<Rightarrow> if d = CHR ''{'' then map_sum id ((#) CHR ''{'') (py_format kw None ds)
                    else py_format kw (Some []) cs
         | [] \<Rightarrow> Inl (ValueError ''Single { encountered in format string''))
      else if c = CHR ''}'' then
        (case cs of
           d # ds \<Rightarrow> if d = CHR ''}'' then map_sum id ((#) CHR ''}'') (py_format kw None ds)
                    else Inl (ValueError ''Single } encountered in format string'')
         | [] \<Rightarrow> Inl (ValueError ''Single } encountered in format string''))
      else map_sum id ((#) c) (py_format kw None cs))"
| "py_format kw (Some nm) (c # cs) =
     (if c = CHR ''}'' then
        (case map_of kw nm of
           None \<Rightarrow> Inl (KeyError nm)
         | Some v \<Rightarrow> map_sum id ((@) (py_str v)) (py_format kw None cs))
      else py_format kw (Some (nm @ [c])) cs)"

section \<open>mian.py: the database\<close>

type_synonym extras = "(string \<times> string) list"

text \<open>
  The dataclass \<open>Lead\<close> (\<open>id\<close> is \<open>lid\<close> here, the alias the script's own join gives it).
  \<open>extras\<close> is a dict with JSON-like values, kept here as a list of keys with the JSON text
  of their values; the table stores its JSON text and \<open>from_row\<close> parses it back, so the
  model keeps the dict itself in the row.
\<close>

record Lead =
  lid :: string
  source :: string
  name :: string
  category :: "string option"
  rating :: "real option"
  review_count :: "int option"
  email :: "string option"
  phone :: "string option"
  website :: "string option"
  address :: "string option"
  city :: "string option"
  state :: "string option"
  country :: "string option"
  extras :: extras
  stage :: string

text \<open>A row of table \<open>leads\<close>: the columns of a \<open>Lead\<close>, \<open>created_at\<close> and \<open>updated_at\<close>.\<close>

record LeadRow =
  row_lead :: Lead
  created_at :: int
  updated_at :: int

text \<open>A row of table \<open>outreach\<close> (\<open>id\<close> is \<open>oid\<close> here, as in the script's join).\<close>

record Outreach =
  oid :: string
  lead_id :: string
  subject :: string
  body :: string
  status :: string
  sent_at :: "int option"
  message_id :: "string option"

text \<open>
  The state: the two tables in row order, and how many times the script has so far read
  the clock, drawn a UUID and opened an SMTP session.
\<close>

record world =
  leads :: "LeadRow list"
  outreach :: "Outreach list"
  clock_reads :: nat
  uuid_draws :: nat
  smtp_sessions :: nat

datatype smtp_reply =
    SmtpError   \<comment> \<open>connecting, \<open>starttls\<close>, \<open>login\<close> or \<open>sendmail\<close> raised\<close>
  | Accepted bool   \<comment> \<open>\<open>sendmail\<close> returned and the session was closed; the flag says whether
      the dict of refused recipients that \<open>sendmail\<close> returned is non-empty\<close>
  | QuitFailed bool   \<comment> \<open>\<open>sendmail\<close> returned (flag as before), then leaving the \<open>with\<close> block raised\<close>

text \<open>
  What the script reads from outside: the environment variables, and the answers of the
  clock, of \<open>uuid.uuid4\<close> and of the mail server, each indexed by the number of earlier
  requests of its kind.
\<close>

record env =
  time_at :: "nat \<Rightarrow> int"
  uuid_at :: "nat \<Rightarrow> string"
  smtp_at :: "nat \<Rightarrow> string option \<Rightarrow> string \<Rightarrow> string \<Rightarrow> smtp_reply"
  SMTP_HOST :: "string option"
  SMTP_USER :: "string option"
  SMTP_PASS :: "string option"
  SMTP_FROM :: "string option"
  ORGANIZATION_NAME :: string
  ORGANIZATION_ADDRESS :: string
  UNSUB_URL :: string

type_synonym 'a prog = "world \<Rightarrow> 'a result \<times> world"

definition now :: "env \<Rightarrow> world \<Rightarrow> int \<times> world" where
  \<comment> \<open>\<open>int(time.time())\<close>\<close>
  "now E w = (time_at E (clock_reads w), w\<lparr> clock_reads := Suc (clock_reads w) \<rparr>)"

definition uuid4 :: "env \<Rightarrow> world \<Rightarrow> string \<times> world" where
  \<comment> \<open>\<open>str(uuid.uuid4())\<close>\<close>
  "uuid4 E w = (uuid_at E (uuid_draws w), w\<lparr> uuid_draws := Suc (uuid_draws w) \<rparr>)"

definition from_row :: "LeadRow \<Rightarrow> Lead" where
  "from_row row = row_lead row"

definition on_conflict_update :: "Lead \<Rightarrow> int \<Rightarrow> LeadRow \<Rightarrow> LeadRow" where
  \<comment> \<open>the \<open>DO UPDATE SET\<close> clause: \<open>id\<close>, \<open>stage\<close> and \<open>created_at\<close> are not in its list\<close>
  "on_conflict_update l t row =
     row\<lparr> row_lead := (row_lead row)\<lparr> source := source l, name := name l,
              category := category l, rating := rating l, review_count := review_count l,
              email := email l, phone := phone l, website := website l,
              address := address l, city := city l, state := state l,
              country := country l, extras := extras l \<rparr>,
          updated_at := t \<rparr>"

text \<open>
  An \<open>INTEGER\<close> of the database is a signed 64-bit number. When Python's \<open>sqlite3\<close> is given an
  int outside that range as a parameter, \<open>execute\<close> raises \<open>OverflowError\<close> and the statement
  does not run. The only int among the columns of a \<open>Lead\<close> is \<open>review_count\<close>. (The answers
  of the clock are seconds since the epoch and lie well inside the range.)
\<close>

definition sqlite_int :: "int \<Rightarrow> bool" where
  "sqlite_int i = (- (2 ^ 63) \<le> i \<and> i < 2 ^ 63)"

definition storable :: "Lead \<Rightarrow> bool" where
  "storable l = (case review_count l of None \<Rightarrow> True | Some n \<Rightarrow> sqlite_int n)"

definition int_too_large :: exn where
  "int_too_large = OverflowError ''Python int too large to convert to SQLite INTEGER''"

definition upsert_lead :: "env \<Rightarrow> Lead \<Rightarrow> unit prog" where
  "upsert_lead E l w =
     (let (created, w1) = now E w;
          (updated, w2) = now E w1
      in if \<not> storable l then (Inl int_too_large, w2)
         else
           (Inr (),
            w2\<lparr> leads :=
                  (if list_ex (\<lambda>row. lid (row_lead row) = lid l) (leads w2)
                   then map (\<lambda>row. if lid (row_lead row) = lid l
                                    then on_conflict_update l updated row else row) (leads w2)
                   else leads w2 @ [\<lparr> row_lead = l, created_at = created, updated_at = updated \<rparr>]) \<rparr>))"

definition set_stage :: "env \<Rightarrow> string \<Rightarrow> string \<Rightarrow> unit prog" where
  "set_stage E i st w =
     (let (t, w1) = now E w
      in (Inr (),
          w1\<lparr> leads := map (\<lambda>row. if lid (row_lead row) = i
                                    then row\<lparr> row_lead := (row_lead row)\<lparr> stage := st \<rparr>,
                                              updated_at := t \<rparr>
                                    else row) (leads w1) \<rparr>))"

definition select_by_stage :: "world \<Rightarrow> string \<Rightarrow> LeadRow list" where
  \<comment> \<open>\<open>SELECT * FROM leads WHERE stage=?\<close>\<close>
  "select_by_stage w st = filter (\<lambda>row. stage (row_lead row) = st) (leads w)"

section \<open>mian.py: qualification\<close>

text \<open>A value of the \<open>notes\<close> dict of \<open>rule_based_score\<close>: the rating or the review count.\<close>

datatype note_value = RatingNote real | ReviewsNote int

definition rule_based_score :: "Lead \<Rightarrow> real \<Rightarrow> int \<Rightarrow> int \<times> (string \<times> note_value) list" where
  "rule_based_score lead min_rating min_reviews =
     (let acc0 = (0, []);
          acc1 = (case rating lead of
                    None \<Rightarrow> acc0
                  | Some r \<Rightarrow> ((if r \<ge> min_rating then fst acc0 + 2 else fst acc0),
                               snd acc0 @ [(''rating'', RatingNote r)]));
          acc2 = (case review_count lead of
                    None \<Rightarrow> acc1
                  | Some n \<Rightarrow> if n \<ge> min_reviews
                              then (fst acc1 + 1, snd acc1 @ [(''reviews'', ReviewsNote n)]) else acc1);
          acc3 = (if truthy (website lead) then (fst acc2 + 1, snd acc2) else acc2);
          acc4 = (if truthy (email lead) then (fst acc3 + 2, snd acc3) else acc3)
      in acc4)"

fun qualify_loop :: "env \<Rightarrow> real \<Rightarrow> int \<Rightarrow> int \<Rightarrow> LeadRow list \<Rightarrow> int \<Rightarrow> int prog" where
  "qualify_loop E min_rating min_reviews min_score [] count w = (Inr count, w)"
| "qualify_loop E min_rating min_reviews min_score (row # rows) count w =
     (let lead = from_row row;
          (score, _) = rule_based_score lead min_rating min_reviews
      in if score \<ge> min_score then
           (case set_stage E (lid lead) ''QUALIFIED'' w of
              (Inl e, w1) \<Rightarrow> (Inl e, w1)
            | (Inr _, w1) \<Rightarrow> qualify_loop E min_rating min_reviews min_score rows (count + 1) w1)
         else
           (case set_stage E (lid lead) ''DISQUALIFIED'' w of
              (Inl e, w1) \<Rightarrow> (Inl e, w1)
            | (Inr _, w1) \<Rightarrow> qualify_loop E min_rating min_reviews min_score rows count w1))"

definition qualify_all :: "env \<Rightarrow> real \<Rightarrow> int \<Rightarrow> int \<Rightarrow> int prog" where
  "qualify_all E min_rating min_reviews min_score w =
     qualify_loop E min_rating min_reviews min_score (select_by_stage w ''NEW'') 0 w"

section \<open>mian.py: e-mail generation\<close>

definition EMAIL_TEMPLATE :: string where
  "EMAIL_TEMPLATE = py_strip
''\<newline>Subject: {subject}\<newline>\<newline>Hi {first_name or 'there'},\<newline>\<newline>I noticed {observation}. {value_prop}.\<newline>\<newline>We helped similar {category or 'businesses'} achieve {social_proof}. I'd be happy to send a quick {lead_magnet}.\<newline>\<newline>Would a {cta_duration}-minute chat sometime this week work?\<newline>\<newline>Best,\<newline>{sender_name}\<newline>{org_name}\<newline>{org_address}\<newline>Unsubscribe: {unsub_url}\<newline>''"

definition split_name :: "string \<Rightarrow> string \<times> string" where
  "split_name biz_name =
     (let parts = py_split biz_name
      in if parts = [] then ([], []) else (hd parts, last parts))"

definition opt_str :: "string option \<Rightarrow> pyval" where
  \<comment> \<open>an \<open>Optional[str]\<close> as a Python value\<close>
  "opt_str x = (case x of None \<Rightarrow> VNone | Some s \<Rightarrow> VStr s)"

text \<open>
  \<open>social_proof\<close> holds the script's only character beyond ASCII, an en dash; it is written
  here as its three UTF-8 bytes.
\<close>

definition generate_email_body :: "env \<Rightarrow> Lead \<Rightarrow> string \<Rightarrow> string \<Rightarrow> int \<Rightarrow> (string \<times> string) result" where
  "generate_email_body E lead offer lead_magnet cta_duration =
     (let first = fst (split_name (name lead));
          subj = ''Quick question about '' @ (if name lead \<noteq> [] then name lead else ''your site'');
          observation = (if (case rating lead of None \<Rightarrow> False | Some r \<Rightarrow> r \<noteq> 0 \<and> r \<ge> 4.2)
                         then ''your strong reviews'' else ''your presence in the area'');
          social_proof = ''20'' @ [CHR 0xE2, CHR 0x80, CHR 0x93] @ ''30% increase in qualified inquiries in 60 days'';
          kwargs = [(''subject'', VStr subj),
                    (''first_name'', if first \<noteq> [] then VStr first else VNone),
                    (''observation'', VStr observation),
                    (''value_prop'', VStr offer),
                    (''category'', opt_str (category lead)),
                    (''social_proof'', VStr social_proof),
                    (''lead_magnet'', VStr lead_magnet),
                    (''cta_duration'', VInt cta_duration),
                    (''sender_name'', VStr (if truthy (SMTP_FROM E)
                        then py_strip (takeWhile (\<lambda>c. c \<noteq> CHR ''<'') (the (SMTP_FROM E)))
                        else ORGANIZATION_NAME E)),
                    (''org_name'', VStr (ORGANIZATION_NAME E)),
                    (''org_address'', VStr (ORGANIZATION_ADDRESS E)),
                    (''unsub_url'', VStr (UNSUB_URL E))]
      in case py_format kwargs None EMAIL_TEMPLATE of
           Inl e \<Rightarrow> Inl e
         | Inr bdy \<Rightarrow> Inr (subj, bdy))"

definition insert_or_replace :: "Outreach \<Rightarrow> Outreach list \<Rightarrow> Outreach list" where
  \<comment> \<open>\<open>INSERT OR REPLACE\<close>: a row with the same primary key is deleted first\<close>
  "insert_or_replace m tbl = filter (\<lambda>x. oid x \<noteq> oid m) tbl @ [m]"

fun draft_loop :: "env \<Rightarrow> string \<Rightarrow> LeadRow list \<Rightarrow> int \<Rightarrow> int prog" where
  "draft_loop E offer [] count w = (Inr count, w)"
| "draft_loop E offer (row # rows) count w =
     (let lead = from_row row
      in if \<not> truthy (email lead) then draft_loop E offer rows count w
         else
           (case generate_email_body E lead offer ''free audit'' 15 of
              Inl e \<Rightarrow> (Inl e, w)
            | Inr (subj, bdy) \<Rightarrow>
                (let (u, w1) = uuid4 E w;
                     w2 = w1\<lparr> outreach := insert_or_replace
                            \<lparr> oid = u, lead_id = lid lead, subject = subj, body = bdy,
                              status = ''DRAFT'', sent_at = None, message_id = None \<rparr>
                            (outreach w1) \<rparr>
                 in draft_loop E offer rows (count + 1) w2)))"

definition draft_emails_for_stage :: "env \<Rightarrow> string \<Rightarrow> string \<Rightarrow> int prog" where
  "draft_emails_for_stage E st offer w = draft_loop E offer (select_by_stage w st) 0 w"

section \<open>mian.py: sending\<close>

definition smtp_configured :: "env \<Rightarrow> bool" where
  \<comment> \<open>\<open>SMTP_HOST and SMTP_USER and SMTP_PASS and SMTP_FROM\<close>\<close>
  "smtp_configured E =
     (truthy (SMTP_HOST E) \<and> truthy (SMTP_USER E) \<and> truthy (SMTP_PASS E) \<and> truthy (SMTP_FROM E))"

definition send_email :: "env \<Rightarrow> string option \<Rightarrow> string \<Rightarrow> string \<Rightarrow> (bool \<times> string option) prog" where
  "send_email E to_addr subj bdy w =
     (if \<not> smtp_configured E then (Inr (False, None), w)
      else
        (let w1 = w\<lparr> smtp_sessions := Suc (smtp_sessions w) \<rparr>
         in case smtp_at E (smtp_sessions w) to_addr subj bdy of
              SmtpError \<Rightarrow> (Inr (False, None), w1)
            | Accepted refused \<Rightarrow>
                if \<not> refused then (let (u, w2) = uuid4 E w1 in (Inr (True, Some u), w2))
                else (Inr (True, None), w1)
            | QuitFailed refused \<Rightarrow>
                if \<not> refused then (let (u, w2) = uuid4 E w1 in (Inr (False, None), w2))
                else (Inr (False, None), w1)))"

text \<open>A row of the join that \<open>send_all\<close> selects.\<close>

record DraftRow =
  r_oid :: string
  r_subject :: string
  r_body :: string
  r_email :: "string option"
  r_lid :: string

definition select_drafts :: "world \<Rightarrow> DraftRow list" where
  \<comment> \<open>\<open>SELECT o.id as oid, o.subject, o.body, l.email, l.id as lid FROM outreach o JOIN
      leads l ON o.lead_id=l.id WHERE o.status='DRAFT'\<close>\<close>
  "select_drafts w =
     concat (map (\<lambda>m. map (\<lambda>row. \<lparr> r_oid = oid m, r_subject = subject m, r_body = body m,
                                     r_email = email (row_lead row), r_lid = lid (row_lead row) \<rparr>)
                          (filter (\<lambda>row. lead_id m = lid (row_lead row)) (leads w)))
                 (filter (\<lambda>m. status m = ''DRAFT'') (outreach w)))"

definition record_attempt :: "env \<Rightarrow> DraftRow \<Rightarrow> bool \<Rightarrow> string option \<Rightarrow> world \<Rightarrow> world" where
  \<comment> \<open>the two \<open>UPDATE\<close> statements after an attempt\<close>
  "record_attempt E r success mid w =
     (let (t1, w1) = now E w;
          w2 = w1\<lparr> outreach := map (\<lambda>m. if oid m = r_oid r
                                          then m\<lparr> status := (if success then ''SENT'' else ''ERROR''),
                                                  sent_at := Some t1, message_id := mid \<rparr>
                                          else m) (outreach w1) \<rparr>
      in if success then
           (let (t2, w3) = now E w2
            in w3\<lparr> leads := map (\<lambda>row. if lid (row_lead row) = r_lid r
                                         then row\<lparr> row_lead := (row_lead row)\<lparr> stage := ''CONTACTED'' \<rparr>,
                                                   updated_at := t2 \<rparr>
                                         else row) (leads w3) \<rparr>)
         else w2)"

text \<open>
  The loop of \<open>send_all\<close>. Outside dry-run mode the script first sleeps until \<open>interval\<close>
  seconds have passed since \<open>last_sent\<close>; the sleep changes no table and shows in the model
  only through the later answers of the clock.
\<close>

fun send_loop :: "env \<Rightarrow> bool \<Rightarrow> DraftRow list \<Rightarrow> int \<Rightarrow> int prog" where
  "send_loop E dry_run [] sent w = (Inr sent, w)"
| "send_loop E dry_run (r # rs) sent w =
     (case (if dry_run then (Inr (True, None), w)
            else send_email E (r_email r) (r_subject r) (r_body r) w) of
        (Inl e, w1) \<Rightarrow> (Inl e, w1)
      | (Inr (success, mid), w1) \<Rightarrow>
          send_loop E dry_run rs (if success then sent + 1 else sent)
            (record_attempt E r success mid w1))"

definition send_all :: "env \<Rightarrow> bool \<Rightarrow> int prog" where
  "send_all E dry_run w = send_loop E dry_run (select_drafts w) 0 w"

section \<open>mian.py: the pace of sending\<close>

text \<open>
  The timing statements of \<open>send_all\<close>, which run outside dry-run mode only:
  \<^verbatim>\<open>delta = time.time() - last_sent\<close>, \<^verbatim>\<open>if delta < interval: time.sleep(interval - delta)\<close>,
  the call of \<open>send_email\<close>, and \<^verbatim>\<open>last_sent = time.time()\<close>. Time is a real number of
  seconds and \<open>time.time()\<close> reads it as it is. What the script cannot know is given from
  outside: the rate, the time at which the loop is entered, and for each step how long it
  takes (for a sleep: how long it lasts beyond the time asked for).
\<close>

record timing =
  SMTP_RATE_PER_MIN :: int
  clock0 :: real
  lag :: "nat \<Rightarrow> real"

record pace =
  clock :: real
  last_sent :: real
  steps :: nat


definition tick :: "timing \<Rightarrow> pace \<Rightarrow> pace" where
  \<comment> \<open>one step of the script runs: time passes\<close>
  "tick T p = p\<lparr> clock := clock p + lag T (steps p), steps := Suc (steps p) \<rparr>"




section \<open>mian.py: search\<close>

text \<open>
  One entry of \<open>local_results\<close> in the search API's answer: the keys the script reads, and
  the entry's own JSON text.
\<close>

record Item =
  item_title :: "string option"
  item_type :: "string option"
  item_rating :: "real option"
  item_reviews :: "int option"
  item_phone :: "string option"
  item_website :: "string option"
  item_address :: "string option"
  item_json :: string

text \<open>
  The loop of \<open>search_serpapi\<close> over the entries it received. \<open>site_email\<close> stands for
  \<open>try_extract_email_from_site\<close>, which fetches the site.
\<close>

fun search_loop :: "env \<Rightarrow> (string \<Rightarrow> string option) \<Rightarrow> Item list \<Rightarrow> world \<Rightarrow> Lead list \<times> world" where
  "search_loop E site_email [] w = ([], w)"
| "search_loop E site_email (item # items) w =
     (let (u, w1) = uuid4 E w;
          lead = \<lparr> lid = u, source = ''serpapi'',
                   name = (if truthy (item_title item) then the (item_title item) else []),
                   category = or_none (item_type item),
                   rating = item_rating item,
                   review_count = item_reviews item,
                   email = (if truthy (item_website item) then site_email (the (item_website item)) else None),
                   phone = or_none (item_phone item),
                   website = item_website item,
                   address = or_none (item_address item),
                   city = None, state = None, country = None,
                   extras = [(''raw'', item_json item)],
                   stage = ''NEW'' \<rparr>;
          (out, w2) = search_loop E site_email items w1
      in (lead # out, w2))"

fun upsert_each :: "env \<Rightarrow> Lead list \<Rightarrow> unit prog" where
  "upsert_each E [] w = (Inr (), w)"
| "upsert_each E (l # ls) w =
     (case upsert_lead E l w of
        (Inl e, w1) \<Rightarrow> (Inl e, w1)
      | (Inr _, w1) \<Rightarrow> upsert_each E ls w1)"

definition cmd_search :: "env \<Rightarrow> (string \<Rightarrow> string option) \<Rightarrow> Item list \<Rightarrow> unit prog" where
  \<comment> \<open>\<open>cmd_search\<close>, given the entries the search returned\<close>
  "cmd_search E site_email items w =
     (let (found, w1) = search_loop E site_email items w in upsert_each E found w1)"

section \<open>Notions used in the statements\<close>

abbreviation has_id :: "string \<Rightarrow> LeadRow \<Rightarrow> bool" where
  "has_id i row \<equiv> lid (row_lead row) = i"

definition keys_ok :: "world \<Rightarrow> bool" where
  \<comment> \<open>the two \<open>PRIMARY KEY\<close> constraints\<close>
  "keys_ok w = (distinct (map (lid \<circ> row_lead) (leads w)) \<and> distinct (map oid (outreach w)))"

definition passes :: "real \<Rightarrow> int \<Rightarrow> int \<Rightarrow> LeadRow \<Rightarrow> bool" where
  \<comment> \<open>the test \<open>score >= min_score\<close> of \<open>qualify_all\<close> on a row\<close>
  "passes min_rating min_reviews min_score row =
     (fst (rule_based_score (from_row row) min_rating min_reviews) \<ge> min_score)"

definition attempt_ok :: "env \<Rightarrow> bool \<Rightarrow> nat \<Rightarrow> DraftRow \<Rightarrow> bool" where
  \<comment> \<open>whether the attempt for a row succeeds, when \<open>n\<close> SMTP sessions were opened before it:
      a dry run always does; a real attempt does when the transport is configured and the
      session raises nothing\<close>
  "attempt_ok E dry_run n r =
     (dry_run \<or> (smtp_configured E \<and>
        (case smtp_at E n (r_email r) (r_subject r) (r_body r) of
           Accepted refused \<Rightarrow> True | SmtpError \<Rightarrow> False | QuitFailed refused \<Rightarrow> False)))"


definition in_flight :: "string \<Rightarrow> Outreach \<Rightarrow> bool" where
  \<comment> \<open>a message of the lead that is neither sent nor failed\<close>
  "in_flight l m = (lead_id m = l \<and> (status m = ''DRAFT'' \<or> status m = ''SENDING''))"

section \<open>The states the script can reach\<close>

text \<open>
  \<open>reachable_from E w0 w\<close>: from \<open>w0\<close>, some sequence of the script's operations leads to \<open>w\<close>.
  An operation that raises ends its command; the database stays as the operation left it.
\<close>

inductive reachable_from :: "env \<Rightarrow> world \<Rightarrow> world \<Rightarrow> bool" for E :: env and w0 :: world where
  by_start: "reachable_from E w0 w0"
| by_search: "reachable_from E w0 w \<Longrightarrow> reachable_from E w0 (snd (cmd_search E site_email items w))"
| by_upsert: "reachable_from E w0 w \<Longrightarrow> reachable_from E w0 (snd (upsert_lead E l w))"
| by_set_stage: "reachable_from E w0 w \<Longrightarrow> reachable_from E w0 (snd (set_stage E i st w))"
| by_qualify: "reachable_from E w0 w \<Longrightarrow>
     reachable_from E w0 (snd (qualify_all E min_rating min_reviews min_score w))"
| by_draft: "reachable_from E w0 w \<Longrightarrow>
     reachable_from E w0 (snd (draft_emails_for_stage E st offer w))"
| by_send: "reachable_from E w0 w \<Longrightarrow> reachable_from E w0 (snd (send_all E dry_run w))"

section \<open>Concrete inputs\<close>

definition env0 :: env where
  "env0 = \<lparr> time_at = (\<lambda>n. 1700000000 + int n),
            uuid_at = (\<lambda>n. ''uuid-'' @ str_nat n),
            smtp_at = (\<lambda>n to_addr subj bdy. if n = 1 then SmtpError else Accepted False),
            SMTP_HOST = Some ''smtp.example.com'', SMTP_USER = Some ''apikey'',
            SMTP_PASS = Some ''secret'', SMTP_FROM = Some ''Your Name <you@domain.com>'',
            ORGANIZATION_NAME = ''Acme Growth'',
            ORGANIZATION_ADDRESS = ''123 Example St, City, ST 00000'',
            UNSUB_URL = ''https://example.com/unsubscribe'' \<rparr>"


definition world0 :: world where
  \<comment> \<open>the database right after the schema is created\<close>
  "world0 = \<lparr> leads = [], outreach = [], clock_reads = 0, uuid_draws = 0, smtp_sessions = 0 \<rparr>"

definition lead_a :: Lead where
  "lead_a = \<lparr> lid = ''a'', source = ''serpapi'', name = ''Acme Dental'',
               category = Some ''Dentist'', rating = Some 4.5, review_count = Some 12,
               email = Some ''info@acme.example'', phone = None,
               website = Some ''https://acme.example'', address = None,
               city = None, state = None, country = None, extras = [], stage = ''NEW'' \<rparr>"

definition lead_b :: Lead where
  "lead_b = \<lparr> lid = ''b'', source = ''serpapi'', name = ''Bright Smiles'',
               category = None, rating = None, review_count = None,
               email = None, phone = None, website = None, address = None,
               city = None, state = None, country = None, extras = [], stage = ''NEW'' \<rparr>"

definition item_a :: Item where
  "item_a = \<lparr> item_title = Some ''Acme Dental'', item_type = Some ''Dentist'',
               item_rating = Some 4.5, item_reviews = Some 12, item_phone = None,
               item_website = None, item_address = None, item_json = ''{}'' \<rparr>"

definition world_ab :: world where
  \<comment> \<open>the database after \<open>lead_a\<close> and \<open>lead_b\<close> were upserted into the empty one\<close>
  "world_ab = \<lparr> leads = [\<lparr> row_lead = lead_a, created_at = 1700000000, updated_at = 1700000001 \<rparr>,
                          \<lparr> row_lead = lead_b, created_at = 1700000002, updated_at = 1700000003 \<rparr>],
                 outreach = [], clock_reads = 4, uuid_draws = 0, smtp_sessions = 0 \<rparr>"

definition lead_c :: Lead where
  "lead_c = \<lparr> lid = ''c'', source = ''serpapi'', name = ''City Gym'',
               category = Some ''Gym'', rating = Some 4.0, review_count = Some 40,
               email = Some ''hello@citygym.example'', phone = None,
               website = None, address = None,
               city = None, state = None, country = None, extras = [], stage = ''QUALIFIED'' \<rparr>"

definition world_drafts :: world where
  \<comment> \<open>three qualified leads, each with one drafted message\<close>
  "world_drafts =
     \<lparr> leads = [\<lparr> row_lead = lead_a\<lparr> stage := ''QUALIFIED'' \<rparr>, created_at = 1700000000, updated_at = 1700000004 \<rparr>,
                \<lparr> row_lead = lead_b\<lparr> email := Some ''team@bright.example'', stage := ''QUALIFIED'' \<rparr>,
                  created_at = 1700000002, updated_at = 1700000005 \<rparr>,
                \<lparr> row_lead = lead_c, created_at = 1700000006, updated_at = 1700000007 \<rparr>],
       outreach = [\<lparr> oid = ''m1'', lead_id = ''a'', subject = ''Quick question about Acme Dental'',
                     body = ''Hi Acme'', status = ''DRAFT'', sent_at = None, message_id = None \<rparr>,
                   \<lparr> oid = ''m2'', lead_id = ''b'', subject = ''Quick question about Bright Smiles'',
                     body = ''Hi Bright'', status = ''DRAFT'', sent_at = None, message_id = None \<rparr>,
                   \<lparr> oid = ''m3'', lead_id = ''c'', subject = ''Quick question about City Gym'',
                     body = ''Hi City'', status = ''DRAFT'', sent_at = None, message_id = None \<rparr>],
       clock_reads = 8, uuid_draws = 0, smtp_sessions = 0 \<rparr>"


section \<open>Properties of \<open>qualify\<close>\<close>

lemma bonus_mono: "0 \<le> k \<Longrightarrow> fst acc \<le> fst (bonus cond k tag acc)"
  by (simp add: bonus_def)

lemma niche_weight_pos: "1 \<le> dict_get NICHE_WEIGHTS n 1"
  by (simp add: dict_get_def NICHE_WEIGHTS_def)

lemma platform_weight_pos: "1 \<le> dict_get PLATFORM_WEIGHTS p 1"
  by (simp add: dict_get_def PLATFORM_WEIGHTS_def)

lemma email_re_al_noor: "re_search EMAIL_RE ''info@alnoorrealty.ae''"
  by code_simp

text \<open>
  Claim C9. The lead named "Al Noor Realty" with niche "real estate", contact
  "info@alnoorrealty.ae" and platform "email" is scored 9 by \<open>qualify\<close>: 3 for the niche,
  3 for the platform, 2 for the contact matching the e-mail pattern and 1 for the visual
  niche. The value does not depend on the lead's id, its previous score and notes, or the
  city. The notes record exactly the two bonuses that fired.
\<close>

theorem qualify_al_noor:
  "score (qualify \<lparr> vid = i, vname = ''Al Noor Realty'', niche = ''real estate'',
                     contact = ''info@alnoorrealty.ae'', platform = ''email'',
                     score = s0, vnotes = n0 \<rparr> c) = 9
   \<and> vnotes (qualify \<lparr> vid = i, vname = ''Al Noor Realty'', niche = ''real estate'',
                     contact = ''info@alnoorrealty.ae'', platform = ''email'',
                     score = s0, vnotes = n0 \<rparr> c) = ''valid_email,visual_niche''"
  by (simp add: qualify_def bonus_def dict_get_def NICHE_WEIGHTS_def PLATFORM_WEIGHTS_def
      email_re_al_noor)

text \<open>
  Claim C10. For every lead, \<open>qualify\<close> sets a score of at least 2: the niche weight and
  the platform weight are each at least 1 (the default for an unknown key is 1, every
  entry of the tables is 2 or 3), and no bonus is negative.
\<close>

theorem qualify_score_ge_2: "2 \<le> score (qualify ld c)"
proof -
  define acc0 :: "int \<times> string list" where
    "acc0 = (0 + dict_get NICHE_WEIGHTS (niche ld) 1
               + dict_get PLATFORM_WEIGHTS (platform ld) 1, [])"
  have base: "2 \<le> fst acc0"
    using niche_weight_pos [of "niche ld"] platform_weight_pos [of "platform ld"]
    by (simp add: acc0_def)
  have step: "\<And>c k t a. 0 \<le> k \<Longrightarrow> 2 \<le> fst a \<Longrightarrow> 2 \<le> fst (bonus c k t a)"
    using bonus_mono by (meson order_trans)
  show ?thesis
    unfolding qualify_def Let_def acc0_def [symmetric]
    by (simp add: step base)
qed

section \<open>The lead store: \<open>set_stage\<close> and \<open>upsert_lead\<close>\<close>

lemma world_ab_reached:
  "snd (upsert_lead env0 lead_b (snd (upsert_lead env0 lead_a world0))) = world_ab"
  by (simp add: upsert_lead_def now_def world0_def env0_def lead_a_def lead_b_def world_ab_def
      storable_def sqlite_int_def)

lemma set_stage_leads:
  "leads (snd (set_stage E i st w)) =
     map (\<lambda>row. if lid (row_lead row) = i
                 then row\<lparr> row_lead := (row_lead row)\<lparr> stage := st \<rparr>,
                           updated_at := time_at E (clock_reads w) \<rparr>
                 else row) (leads w)"
  by (simp add: set_stage_def now_def)

lemma set_stage_frame:
  "fst (set_stage E i st w) = Inr ()"
  "outreach (snd (set_stage E i st w)) = outreach w"
  "clock_reads (snd (set_stage E i st w)) = Suc (clock_reads w)"
  "uuid_draws (snd (set_stage E i st w)) = uuid_draws w"
  "smtp_sessions (snd (set_stage E i st w)) = smtp_sessions w"
  by (simp_all add: set_stage_def now_def)

lemma map_if_absent:
  "k \<notin> set (map f xs) \<Longrightarrow> map (\<lambda>x. if f x = k then g x else x) xs = xs"
  by (induction xs) auto

text \<open>
  Claim C5, as the code has it. \<open>set_stage\<close> never fails: for an id that no row has it
  returns normally and leaves both tables as they were (it has only read the clock). For an
  id that a row has, it overwrites that row's stage and \<open>updated_at\<close>, and a later read of
  the leads in the new stage returns the row with the new stage and its other columns
  intact. Rows with other ids, the order of the rows and the outreach table are untouched.
\<close>

theorem set_stage_effect:
  "fst (set_stage E i st w) = Inr ()
   \<and> outreach (snd (set_stage E i st w)) = outreach w
   \<and> map (lid \<circ> row_lead) (leads (snd (set_stage E i st w))) = map (lid \<circ> row_lead) (leads w)
   \<and> (i \<notin> set (map (lid \<circ> row_lead) (leads w)) \<longrightarrow> leads (snd (set_stage E i st w)) = leads w)
   \<and> (\<forall>row \<in> set (leads w). lid (row_lead row) = i \<longrightarrow>
         row\<lparr> row_lead := (row_lead row)\<lparr> stage := st \<rparr>,
              updated_at := time_at E (clock_reads w) \<rparr>
           \<in> set (select_by_stage (snd (set_stage E i st w)) st))
   \<and> (\<forall>row \<in> set (leads w). lid (row_lead row) \<noteq> i \<longrightarrow>
         row \<in> set (leads (snd (set_stage E i st w))))"
proof -
  let ?f = "\<lambda>row. if lid (row_lead row) = i
                    then row\<lparr> row_lead := (row_lead row)\<lparr> stage := st \<rparr>,
                              updated_at := time_at E (clock_reads w) \<rparr>
                    else row"
  have ids: "map (lid \<circ> row_lead) (map ?f (leads w)) = map (lid \<circ> row_lead) (leads w)"
    by (induction "leads w") auto
  have absent: "i \<notin> set (map (lid \<circ> row_lead) (leads w)) \<Longrightarrow> map ?f (leads w) = leads w"
    using map_if_absent [of i "lid \<circ> row_lead" "leads w"] by simp
  have known: "\<And>row. row \<in> set (leads w) \<Longrightarrow> lid (row_lead row) = i \<Longrightarrow>
      row\<lparr> row_lead := (row_lead row)\<lparr> stage := st \<rparr>,
           updated_at := time_at E (clock_reads w) \<rparr>
        \<in> set (filter (\<lambda>r. stage (row_lead r) = st) (map ?f (leads w)))"
    by force
  have others: "\<And>row. row \<in> set (leads w) \<Longrightarrow> lid (row_lead row) \<noteq> i \<Longrightarrow>
      row \<in> set (map ?f (leads w))"
    by force
  show ?thesis
    unfolding set_stage_leads select_by_stage_def
  proof (intro conjI)
    show "fst (set_stage E i st w) = Inr ()" by (rule set_stage_frame)
    show "outreach (snd (set_stage E i st w)) = outreach w" by (rule set_stage_frame)
    show "map (lid \<circ> row_lead) (map ?f (leads w)) = map (lid \<circ> row_lead) (leads w)"
      by (rule ids)
    show "i \<notin> set (map (lid \<circ> row_lead) (leads w)) \<longrightarrow> map ?f (leads w) = leads w"
      using absent by blast
    show "\<forall>row \<in> set (leads w). lid (row_lead row) = i \<longrightarrow>
         row\<lparr> row_lead := (row_lead row)\<lparr> stage := st \<rparr>,
              updated_at := time_at E (clock_reads w) \<rparr>
           \<in> set (filter (\<lambda>row. stage (row_lead row) = st) (map ?f (leads w)))"
      using known by blast
    show "\<forall>row \<in> set (leads w). lid (row_lead row) \<noteq> i \<longrightarrow> row \<in> set (map ?f (leads w))"
      using others by blast
  qed
qed

theorem set_stage_effect_witness:
  "fst (set_stage env0 ''a'' ''QUALIFIED'' world_ab) = Inr ()
   \<and> map (lid \<circ> row_lead) (select_by_stage (snd (set_stage env0 ''a'' ''QUALIFIED'' world_ab)) ''QUALIFIED'') = [''a'']
   \<and> leads (snd (set_stage env0 ''ghost'' ''QUALIFIED'' world_ab)) = leads world_ab"
  using set_stage_effect [of env0 "''a''" "''QUALIFIED''" world_ab]
        set_stage_effect [of env0 "''ghost''" "''QUALIFIED''" world_ab]
  by (simp add: world_ab_def lead_a_def lead_b_def set_stage_leads select_by_stage_def)

text \<open>
  Claim C5 as stated fails: for the id \<open>ghost\<close>, which no row of \<open>world_ab\<close> has, the
  call returns normally; the script has no error for an unknown id.
\<close>

theorem set_stage_unknown_id_returns:
  "''ghost'' \<notin> set (map (lid \<circ> row_lead) (leads world_ab))
   \<and> set_stage env0 ''ghost'' ''QUALIFIED'' world_ab = (Inr (), world_ab\<lparr> clock_reads := 5 \<rparr>)"
  by (simp add: set_stage_def now_def world_ab_def lead_a_def lead_b_def)

lemma upsert_lead_result:
  "fst (upsert_lead E l w) = (if storable l then Inr () else Inl int_too_large)"
  by (simp add: upsert_lead_def now_def)

lemma upsert_lead_frame:
  "outreach (snd (upsert_lead E l w)) = outreach w"
  "clock_reads (snd (upsert_lead E l w)) = clock_reads w + 2"
  "uuid_draws (snd (upsert_lead E l w)) = uuid_draws w"
  "smtp_sessions (snd (upsert_lead E l w)) = smtp_sessions w"
  by (simp_all add: upsert_lead_def now_def)

lemma upsert_lead_refused:
  "\<not> storable l \<Longrightarrow> leads (snd (upsert_lead E l w)) = leads w"
  by (simp add: upsert_lead_def now_def)

lemma upsert_lead_leads:
  "storable l \<Longrightarrow>
   leads (snd (upsert_lead E l w)) =
     (if list_ex (has_id (lid l)) (leads w)
      then map (\<lambda>row. if has_id (lid l) row
                       then on_conflict_update l (time_at E (Suc (clock_reads w))) row else row) (leads w)
      else leads w @ [\<lparr> row_lead = l, created_at = time_at E (clock_reads w),
                         updated_at = time_at E (Suc (clock_reads w)) \<rparr>])"
  by (simp add: upsert_lead_def now_def)

lemma on_conflict_update_id [simp]: "lid (row_lead (on_conflict_update l t row)) = lid (row_lead row)"
  by (simp add: on_conflict_update_def)

lemma filter_map_update:
  assumes "\<And>x. P (g x) = P x"
  shows "filter P (map (\<lambda>x. if P x then g x else x) xs) = map g (filter P xs)"
    and "filter (\<lambda>x. \<not> P x) (map (\<lambda>x. if P x then g x else x) xs) = filter (\<lambda>x. \<not> P x) xs"
  using assms by (induction xs) auto

lemma filter_distinct_key:
  "distinct (map f xs) \<Longrightarrow> x \<in> set xs \<Longrightarrow> filter (\<lambda>y. f y = f x) xs = [x]"
proof (induction xs)
  case Nil
  then show ?case by simp
next
  case (Cons a xs)
  from Cons.prems(1) have notin: "f a \<notin> f ` set xs" and dist: "distinct (map f xs)" by simp_all
  show ?case
  proof (cases "a = x")
    case True
    have "\<And>y. y \<in> set xs \<Longrightarrow> f y \<noteq> f x"
      using notin True by (metis imageI)
    then have "filter (\<lambda>y. f y = f x) xs = []" by (simp add: filter_empty_conv)
    with True show ?thesis by simp
  next
    case False
    with Cons.prems(2) have mem: "x \<in> set xs" by simp
    then have "f a \<noteq> f x" using notin by (metis imageI)
    with Cons.IH [OF dist mem] show ?thesis by simp
  qed
qed

text \<open>After an upsert the table holds exactly one row with the lead's id, if ids were distinct.\<close>

lemma upsert_lead_one_row:
  assumes "distinct (map (lid \<circ> row_lead) (leads w))" and ok: "storable l"
  shows "\<exists>row. filter (has_id (lid l)) (leads (snd (upsert_lead E l w))) = [row]
           \<and> (\<not> list_ex (has_id (lid l)) (leads w) \<longrightarrow>
                row = \<lparr> row_lead = l, created_at = time_at E (clock_reads w),
                        updated_at = time_at E (Suc (clock_reads w)) \<rparr>)"
proof (cases "list_ex (has_id (lid l)) (leads w)")
  case True
  then obtain r where r: "r \<in> set (leads w)" "lid (row_lead r) = lid l"
    by (auto simp: list_ex_iff)
  from filter_distinct_key [OF assms(1) r(1)] r(2)
  have "filter (has_id (lid l)) (leads w) = [r]" by simp
  then show ?thesis
    using True by (simp add: upsert_lead_leads [OF ok] filter_map_update)
next
  case False
  then have "filter (has_id (lid l)) (leads w) = []"
    by (auto simp: list_ex_iff filter_empty_conv)
  then show ?thesis
    using False by (simp add: upsert_lead_leads [OF ok])
qed

lemma upsert_lead_existing:
  assumes "filter (has_id (lid l)) (leads w) = [row1]" and ok: "storable l"
  shows "filter (has_id (lid l)) (leads (snd (upsert_lead E l w)))
           = [\<lparr> row_lead = l\<lparr> stage := stage (row_lead row1) \<rparr>, created_at = created_at row1,
                updated_at = time_at E (Suc (clock_reads w)) \<rparr>]"
    and "filter (\<lambda>row. \<not> has_id (lid l) row) (leads (snd (upsert_lead E l w)))
           = filter (\<lambda>row. \<not> has_id (lid l) row) (leads w)"
    and "length (leads (snd (upsert_lead E l w))) = length (leads w)"
proof -
  have in1: "row1 \<in> set (filter (has_id (lid l)) (leads w))" using assms(1) by simp
  then have ex: "list_ex (has_id (lid l)) (leads w)" and id1: "lid (row_lead row1) = lid l"
    by (auto simp: list_ex_iff)
  have upd: "on_conflict_update l t row1
               = \<lparr> row_lead = l\<lparr> stage := stage (row_lead row1) \<rparr>, created_at = created_at row1,
                   updated_at = t \<rparr>" for t
    using id1 by (cases row1; cases "row_lead row1"; cases l) (simp add: on_conflict_update_def)
  show "filter (has_id (lid l)) (leads (snd (upsert_lead E l w)))
           = [\<lparr> row_lead = l\<lparr> stage := stage (row_lead row1) \<rparr>, created_at = created_at row1,
                updated_at = time_at E (Suc (clock_reads w)) \<rparr>]"
    using ex assms(1) by (simp add: upsert_lead_leads [OF ok] filter_map_update upd)
  show "filter (\<lambda>row. \<not> has_id (lid l) row) (leads (snd (upsert_lead E l w)))
           = filter (\<lambda>row. \<not> has_id (lid l) row) (leads w)"
    using ex by (simp add: upsert_lead_leads [OF ok] filter_map_update)
  show "length (leads (snd (upsert_lead E l w))) = length (leads w)"
    using ex by (simp add: upsert_lead_leads [OF ok])
qed

text \<open>
  Claim C1, as the code has it: the upsert is keyed on the lead's id, the primary key of the
  table. Take a table with distinct ids and two leads with the same id whose review counts
  the database can hold (absent, or within 64 bits). Upserting the first and then the
  second leaves exactly one row with that id. The second upsert inserts nothing; in that
  row it stores the second lead's columns (rating, review count, e-mail, phone, website,
  address and extras among them) and sets \<open>updated_at\<close> to the clock's answer at the second
  upsert, while the id, the stage and \<open>created_at\<close> of the row stay those it had after the
  first. Rows with other ids and the outreach table are untouched. An upsert of a lead
  whose review count the database cannot hold raises \<open>OverflowError\<close> and leaves both
  tables as they were.
\<close>

theorem upsert_lead_twice_same_id:
  assumes pk: "distinct (map (lid \<circ> row_lead) (leads w))"
    and same: "lid l2 = lid l1"
    and ok1: "storable l1"
    and ok2: "storable l2"
  shows "(\<exists>row1.
      fst (upsert_lead E l1 w) = Inr ()
    \<and> fst (upsert_lead E l2 (snd (upsert_lead E l1 w))) = Inr ()
    \<and> filter (has_id (lid l1)) (leads (snd (upsert_lead E l1 w))) = [row1]
    \<and> (lid l1 \<notin> set (map (lid \<circ> row_lead) (leads w)) \<longrightarrow>
          row1 = \<lparr> row_lead = l1, created_at = time_at E (clock_reads w),
                   updated_at = time_at E (clock_reads w + 1) \<rparr>)
    \<and> filter (has_id (lid l1)) (leads (snd (upsert_lead E l2 (snd (upsert_lead E l1 w)))))
         = [\<lparr> row_lead = l2\<lparr> stage := stage (row_lead row1) \<rparr>, created_at = created_at row1,
              updated_at = time_at E (clock_reads w + 3) \<rparr>]
    \<and> filter (\<lambda>row. \<not> has_id (lid l1) row) (leads (snd (upsert_lead E l2 (snd (upsert_lead E l1 w)))))
         = filter (\<lambda>row. \<not> has_id (lid l1) row) (leads (snd (upsert_lead E l1 w)))
    \<and> length (leads (snd (upsert_lead E l2 (snd (upsert_lead E l1 w)))))
         = length (leads (snd (upsert_lead E l1 w)))
    \<and> outreach (snd (upsert_lead E l2 (snd (upsert_lead E l1 w)))) = outreach w)
   \<and> (\<forall>l v. \<not> storable l \<longrightarrow>
          fst (upsert_lead E l v) = Inl int_too_large
        \<and> leads (snd (upsert_lead E l v)) = leads v
        \<and> outreach (snd (upsert_lead E l v)) = outreach v)"
proof
  let ?w1 = "snd (upsert_lead E l1 w)"
  from upsert_lead_one_row [OF pk ok1, of E]
  obtain row1 where one: "filter (has_id (lid l1)) (leads ?w1) = [row1]"
    and fresh: "\<not> list_ex (has_id (lid l1)) (leads w) \<longrightarrow>
                row1 = \<lparr> row_lead = l1, created_at = time_at E (clock_reads w),
                         updated_at = time_at E (Suc (clock_reads w)) \<rparr>"
    by blast
  have one': "filter (has_id (lid l2)) (leads ?w1) = [row1]" using one same by simp
  have absent: "lid l1 \<notin> set (map (lid \<circ> row_lead) (leads w)) \<Longrightarrow> \<not> list_ex (has_id (lid l1)) (leads w)"
    unfolding list_ex_iff set_map by (metis comp_apply imageI)
  note second = upsert_lead_existing [OF one' ok2, of E, unfolded same]
  show "\<exists>row1.
      fst (upsert_lead E l1 w) = Inr ()
    \<and> fst (upsert_lead E l2 (snd (upsert_lead E l1 w))) = Inr ()
    \<and> filter (has_id (lid l1)) (leads (snd (upsert_lead E l1 w))) = [row1]
    \<and> (lid l1 \<notin> set (map (lid \<circ> row_lead) (leads w)) \<longrightarrow>
          row1 = \<lparr> row_lead = l1, created_at = time_at E (clock_reads w),
                   updated_at = time_at E (clock_reads w + 1) \<rparr>)
    \<and> filter (has_id (lid l1)) (leads (snd (upsert_lead E l2 (snd (upsert_lead E l1 w)))))
         = [\<lparr> row_lead = l2\<lparr> stage := stage (row_lead row1) \<rparr>, created_at = created_at row1,
              updated_at = time_at E (clock_reads w + 3) \<rparr>]
    \<and> filter (\<lambda>row. \<not> has_id (lid l1) row) (leads (snd (upsert_lead E l2 (snd (upsert_lead E l1 w)))))
         = filter (\<lambda>row. \<not> has_id (lid l1) row) (leads (snd (upsert_lead E l1 w)))
    \<and> length (leads (snd (upsert_lead E l2 (snd (upsert_lead E l1 w)))))
         = length (leads (snd (upsert_lead E l1 w)))
    \<and> outreach (snd (upsert_lead E l2 (snd (upsert_lead E l1 w)))) = outreach w"
  proof (intro exI [of _ row1] conjI)
    show "fst (upsert_lead E l1 w) = Inr ()" using ok1 by (simp add: upsert_lead_result)
    show "fst (upsert_lead E l2 ?w1) = Inr ()" using ok2 by (simp add: upsert_lead_result)
    show "filter (has_id (lid l1)) (leads ?w1) = [row1]" by (rule one)
    show "lid l1 \<notin> set (map (lid \<circ> row_lead) (leads w)) \<longrightarrow>
          row1 = \<lparr> row_lead = l1, created_at = time_at E (clock_reads w),
                   updated_at = time_at E (clock_reads w + 1) \<rparr>"
      using fresh absent by simp
    show "filter (has_id (lid l1)) (leads (snd (upsert_lead E l2 ?w1)))
         = [\<lparr> row_lead = l2\<lparr> stage := stage (row_lead row1) \<rparr>, created_at = created_at row1,
              updated_at = time_at E (clock_reads w + 3) \<rparr>]"
      using second(1) by (simp add: upsert_lead_frame numeral_3_eq_3)
    show "filter (\<lambda>row. \<not> has_id (lid l1) row) (leads (snd (upsert_lead E l2 ?w1)))
         = filter (\<lambda>row. \<not> has_id (lid l1) row) (leads ?w1)"
      using second(2) by simp
    show "length (leads (snd (upsert_lead E l2 ?w1))) = length (leads ?w1)"
      using second(3) by simp
    show "outreach (snd (upsert_lead E l2 ?w1)) = outreach w"
      by (simp add: upsert_lead_frame)
  qed
  show "\<forall>l v. \<not> storable l \<longrightarrow>
          fst (upsert_lead E l v) = Inl int_too_large
        \<and> leads (snd (upsert_lead E l v)) = leads v
        \<and> outreach (snd (upsert_lead E l v)) = outreach v"
    by (simp add: upsert_lead_result upsert_lead_refused upsert_lead_frame)
qed

theorem upsert_lead_twice_same_id_witness:
  "distinct (map (lid \<circ> row_lead) (leads world_ab))
   \<and> storable lead_a
   \<and> storable (lead_a\<lparr> rating := Some 3.0, stage := ''IGNORED'' \<rparr>)
   \<and> map (\<lambda>row. (rating (row_lead row), stage (row_lead row), created_at row, updated_at row))
         (filter (has_id ''a'')
            (leads (snd (upsert_lead env0 (lead_a\<lparr> rating := Some 3.0, stage := ''IGNORED'' \<rparr>)
                      (snd (upsert_lead env0 lead_a world_ab))))))
       = [(Some 3.0, ''NEW'', 1700000000, 1700000007)]
   \<and> length (leads (snd (upsert_lead env0 (lead_a\<lparr> rating := Some 3.0, stage := ''IGNORED'' \<rparr>)
                      (snd (upsert_lead env0 lead_a world_ab))))) = 2
   \<and> \<not> storable (lead_a\<lparr> review_count := Some (2 ^ 63) \<rparr>)
   \<and> upsert_lead env0 (lead_a\<lparr> review_count := Some (2 ^ 63) \<rparr>) world_ab
       = (Inl int_too_large, world_ab\<lparr> clock_reads := 6 \<rparr>)"
proof -
  have pk: "distinct (map (lid \<circ> row_lead) (leads world_ab))"
    by (simp add: world_ab_def lead_a_def lead_b_def)
  have same: "lid (lead_a\<lparr> rating := Some 3.0, stage := ''IGNORED'' \<rparr>) = lid lead_a" by simp
  have ok1: "storable lead_a" by (simp add: storable_def sqlite_int_def lead_a_def)
  have ok2: "storable (lead_a\<lparr> rating := Some 3.0, stage := ''IGNORED'' \<rparr>)"
    by (simp add: storable_def sqlite_int_def lead_a_def)
  have big: "\<not> storable (lead_a\<lparr> review_count := Some (2 ^ 63) \<rparr>)"
    by (simp add: storable_def sqlite_int_def)
  note both = upsert_lead_twice_same_id [OF pk same ok1 ok2, of env0]
  from both obtain row1 where
    r1: "filter (has_id (lid lead_a)) (leads (snd (upsert_lead env0 lead_a world_ab))) = [row1]"
    and r2: "filter (has_id (lid lead_a))
       (leads (snd (upsert_lead env0 (lead_a\<lparr> rating := Some 3.0, stage := ''IGNORED'' \<rparr>)
                 (snd (upsert_lead env0 lead_a world_ab)))))
      = [\<lparr> row_lead = (lead_a\<lparr> rating := Some 3.0, stage := ''IGNORED'' \<rparr>)\<lparr> stage := stage (row_lead row1) \<rparr>,
           created_at = created_at row1, updated_at = time_at env0 (clock_reads world_ab + 3) \<rparr>]"
    and len: "length (leads (snd (upsert_lead env0 (lead_a\<lparr> rating := Some 3.0, stage := ''IGNORED'' \<rparr>)
                      (snd (upsert_lead env0 lead_a world_ab)))))
              = length (leads (snd (upsert_lead env0 lead_a world_ab)))"
    by blast
  from both big have refused:
    "fst (upsert_lead env0 (lead_a\<lparr> review_count := Some (2 ^ 63) \<rparr>) world_ab) = Inl int_too_large"
    by blast
  have after: "snd (upsert_lead env0 (lead_a\<lparr> review_count := Some (2 ^ 63) \<rparr>) world_ab)
        = world_ab\<lparr> clock_reads := 6 \<rparr>"
    using big by (simp add: upsert_lead_def now_def world_ab_def)
  have first: "filter (has_id ''a'') (leads (snd (upsert_lead env0 lead_a world_ab)))
        = [\<lparr> row_lead = lead_a, created_at = 1700000000, updated_at = 1700000005 \<rparr>]"
    by (subst upsert_lead_leads [OF ok1])
       (simp add: world_ab_def lead_a_def lead_b_def on_conflict_update_def env0_def)
  have ida: "lid lead_a = ''a''" by (simp add: lead_a_def)
  from r1 first ida have row1: "row1 = \<lparr> row_lead = lead_a, created_at = 1700000000, updated_at = 1700000005 \<rparr>"
    by simp
  have len1: "length (leads (snd (upsert_lead env0 lead_a world_ab))) = 2"
    by (subst upsert_lead_leads [OF ok1]) (simp add: world_ab_def lead_a_def lead_b_def)
  have res: "upsert_lead env0 (lead_a\<lparr> review_count := Some (2 ^ 63) \<rparr>) world_ab
       = (Inl int_too_large, world_ab\<lparr> clock_reads := 6 \<rparr>)"
    using refused after by (simp add: prod_eq_iff)
  have shown: "map (\<lambda>row. (rating (row_lead row), stage (row_lead row), created_at row, updated_at row))
         (filter (has_id ''a'')
            (leads (snd (upsert_lead env0 (lead_a\<lparr> rating := Some 3.0, stage := ''IGNORED'' \<rparr>)
                      (snd (upsert_lead env0 lead_a world_ab))))))
       = [(Some 3.0, ''NEW'', 1700000000, 1700000007)]"
    using r2 unfolding row1 ida by (simp add: lead_a_def env0_def world_ab_def)
  from pk ok1 ok2 shown len len1 big res show ?thesis by simp
qed

text \<open>
  Claim C1 as stated fails: the same raw record, ingested twice by \<open>cmd_search\<close>, is
  given a fresh id each time, so the store ends with two leads of the same name and source.
\<close>

theorem same_item_ingested_twice:
  "map (\<lambda>row. (lid (row_lead row), name (row_lead row), source (row_lead row)))
     (leads (snd (cmd_search env0 (\<lambda>url. None) [item_a]
               (snd (cmd_search env0 (\<lambda>url. None) [item_a] world0)))))
   = [(''uuid-0'', ''Acme Dental'', ''serpapi''), (''uuid-1'', ''Acme Dental'', ''serpapi'')]"
  by (simp add: cmd_search_def upsert_lead_def now_def uuid4_def world0_def env0_def item_a_def
      truthy_def or_none_def storable_def sqlite_int_def)

section \<open>The e-mail template\<close>

lemma EMAIL_TEMPLATE_stripped:
  "EMAIL_TEMPLATE =
''Subject: {subject}\<newline>\<newline>Hi {first_name or 'there'},\<newline>\<newline>I noticed {observation}. {value_prop}.\<newline>\<newline>We helped similar {category or 'businesses'} achieve {social_proof}. I'd be happy to send a quick {lead_magnet}.\<newline>\<newline>Would a {cta_duration}-minute chat sometime this week work?\<newline>\<newline>Best,\<newline>{sender_name}\<newline>{org_name}\<newline>{org_address}\<newline>Unsubscribe: {unsub_url}''"
  by code_simp

lemma py_format_template:
  assumes "map_of kw ''subject'' = Some v"
    and "map_of kw (''first_name or '' @ [CHR 0x27] @ ''there'' @ [CHR 0x27]) = None"
  shows "py_format kw None EMAIL_TEMPLATE
         = Inl (KeyError (''first_name or '' @ [CHR 0x27] @ ''there'' @ [CHR 0x27]))"
  using assms by (simp add: EMAIL_TEMPLATE_stripped)

lemma generate_email_body_KeyError:
  "generate_email_body E ld offer magnet cta
   = Inl (KeyError (''first_name or '' @ [CHR 0x27] @ ''there'' @ [CHR 0x27]))"
  unfolding generate_email_body_def Let_def
  by (subst py_format_template) simp_all

text \<open>
  Claim C3 does not hold of the code: \<open>generate_email_body\<close> raises \<open>KeyError\<close> for every
  lead, offer, lead magnet and duration. The template's field \<open>{first_name or 'there'}\<close> is
  looked up as a keyword argument of that very name, and no such argument is passed.
\<close>

theorem generate_email_body_raises:
  "generate_email_body E ld offer magnet cta
   = Inl (KeyError (''first_name or '' @ [CHR 0x27] @ ''there'' @ [CHR 0x27]))"
  by (rule generate_email_body_KeyError)

section \<open>The qualification pass\<close>

text \<open>One turn of the loop is a \<open>set_stage\<close> with the verdict on the snapshot row.\<close>

lemma qualify_loop_Cons:
  "qualify_loop E mr mv ms (x # rows) n w =
     qualify_loop E mr mv ms rows (if passes mr mv ms x then n + 1 else n)
       (snd (set_stage E (lid (row_lead x))
               (if passes mr mv ms x then ''QUALIFIED'' else ''DISQUALIFIED'') w))"
  by (simp add: passes_def from_row_def set_stage_def now_def Let_def split_def)

lemma qualify_loop_result:
  "fst (qualify_loop E mr mv ms rows n w) = Inr (n + int (length (filter (passes mr mv ms) rows)))
   \<and> outreach (snd (qualify_loop E mr mv ms rows n w)) = outreach w
   \<and> clock_reads (snd (qualify_loop E mr mv ms rows n w)) = clock_reads w + length rows
   \<and> uuid_draws (snd (qualify_loop E mr mv ms rows n w)) = uuid_draws w
   \<and> smtp_sessions (snd (qualify_loop E mr mv ms rows n w)) = smtp_sessions w"
proof (induction rows arbitrary: n w)
  case Nil
  show ?case by simp
next
  case (Cons x rows)
  show ?case
    unfolding qualify_loop_Cons
    by (simp add: Cons.IH set_stage_frame)
qed

text \<open>
  The rows of the table after the loop, against the rows before: a row whose id is not in
  the snapshot is untouched; a row whose id is that of a snapshot row has that row's verdict
  as its stage.
\<close>

lemma qualify_loop_rows:
  assumes "distinct (map (lid \<circ> row_lead) rows)"
  shows "list_all2
           (\<lambda>row row'.
              (lid (row_lead row) \<notin> set (map (lid \<circ> row_lead) rows) \<longrightarrow> row' = row)
            \<and> (\<forall>x \<in> set rows. lid (row_lead x) = lid (row_lead row) \<longrightarrow>
                  row_lead row' = (row_lead row)\<lparr> stage := (if passes mr mv ms x
                                                             then ''QUALIFIED'' else ''DISQUALIFIED'') \<rparr>
                  \<and> created_at row' = created_at row))
           (leads w) (leads (snd (qualify_loop E mr mv ms rows n w)))"
  using assms
proof (induction rows arbitrary: n w)
  case Nil
  show ?case by (simp add: list.rel_refl)
next
  case (Cons x rows)
  let ?st = "if passes mr mv ms x then ''QUALIFIED'' else ''DISQUALIFIED''"
  let ?f = "\<lambda>row. if lid (row_lead row) = lid (row_lead x)
                    then row\<lparr> row_lead := (row_lead row)\<lparr> stage := ?st \<rparr>,
                              updated_at := time_at E (clock_reads w) \<rparr>
                    else row"
  let ?w1 = "snd (set_stage E (lid (row_lead x)) ?st w)"
  let ?n1 = "if passes mr mv ms x then n + 1 else n"
  from Cons.prems have dist: "distinct (map (lid \<circ> row_lead) rows)"
    and fresh: "lid (row_lead x) \<notin> set (map (lid \<circ> row_lead) rows)"
    by (simp_all add: comp_def)
  have w1: "leads ?w1 = map ?f (leads w)" by (rule set_stage_leads)
  from Cons.IH [OF dist, of ?w1 ?n1]
  have ih: "list_all2
           (\<lambda>row row'.
              (lid (row_lead (?f row)) \<notin> set (map (lid \<circ> row_lead) rows) \<longrightarrow> row' = ?f row)
            \<and> (\<forall>y \<in> set rows. lid (row_lead y) = lid (row_lead (?f row)) \<longrightarrow>
                  row_lead row' = (row_lead (?f row))\<lparr> stage := (if passes mr mv ms y
                                                             then ''QUALIFIED'' else ''DISQUALIFIED'') \<rparr>
                  \<and> created_at row' = created_at (?f row)))
           (leads w) (leads (snd (qualify_loop E mr mv ms rows ?n1 ?w1)))"
    unfolding w1 list_all2_map1 .
  have idf: "\<And>row. lid (row_lead (?f row)) = lid (row_lead row)" by simp
  show ?case
    unfolding qualify_loop_Cons
  proof (rule list.rel_mono_strong [OF ih], intro conjI impI ballI)
    fix row row'
    assume h: "(lid (row_lead (?f row)) \<notin> set (map (lid \<circ> row_lead) rows) \<longrightarrow> row' = ?f row)
            \<and> (\<forall>y \<in> set rows. lid (row_lead y) = lid (row_lead (?f row)) \<longrightarrow>
                  row_lead row' = (row_lead (?f row))\<lparr> stage := (if passes mr mv ms y
                                                             then ''QUALIFIED'' else ''DISQUALIFIED'') \<rparr>
                  \<and> created_at row' = created_at (?f row))"
    {
      assume "lid (row_lead row) \<notin> set (map (lid \<circ> row_lead) (x # rows))"
      then have "lid (row_lead row) \<noteq> lid (row_lead x)"
        and "lid (row_lead row) \<notin> set (map (lid \<circ> row_lead) rows)" by auto
      with h show "row' = row" by (simp only: idf) simp
    }
    {
      fix y assume y: "y \<in> set (x # rows)" and same: "lid (row_lead y) = lid (row_lead row)"
      have both: "row_lead row' = (row_lead row)\<lparr> stage := (if passes mr mv ms y
                                                    then ''QUALIFIED'' else ''DISQUALIFIED'') \<rparr>
              \<and> created_at row' = created_at row"
      proof (cases "y = x")
        case True
        with same have eq: "lid (row_lead row) = lid (row_lead x)" by simp
        with fresh have "lid (row_lead (?f row)) \<notin> set (map (lid \<circ> row_lead) rows)"
          by (simp only: idf) simp
        with h have "row' = ?f row" by blast
        with eq True show ?thesis by simp
      next
        case False
        with y have yin: "y \<in> set rows" by simp
        then have "lid (row_lead y) \<in> set (map (lid \<circ> row_lead) rows)" by force
        with fresh same have ne: "lid (row_lead row) \<noteq> lid (row_lead x)" by metis
        then have fr: "?f row = row" by simp
        from h yin same show ?thesis unfolding fr by blast
      qed
      from both show "row_lead row' = (row_lead row)\<lparr> stage := (if passes mr mv ms y
                                                    then ''QUALIFIED'' else ''DISQUALIFIED'') \<rparr>"
        by blast
      from both show "created_at row' = created_at row" by blast
    }
  qed
qed


lemma distinct_key_eq:
  "distinct (map f xs) \<Longrightarrow> x \<in> set xs \<Longrightarrow> y \<in> set xs \<Longrightarrow> f x = f y \<Longrightarrow> x = y"
  by (meson distinct_map inj_onD)

lemma list_all2_filter_empty:
  assumes "list_all2 P xs ys" and "\<And>x y. x \<in> set xs \<Longrightarrow> P x y \<Longrightarrow> \<not> Q y"
  shows "filter Q ys = []"
proof -
  have "\<not> Q y" if "y \<in> set ys" for y
  proof -
    from that obtain k where k: "k < length ys" "ys ! k = y" by (auto simp: in_set_conv_nth)
    from assms(1) k(1) have "k < length xs" and "P (xs ! k) (ys ! k)"
      by (auto simp: list_all2_conv_all_nth)
    with assms(2) [of "xs ! k" y] k(2) show ?thesis by auto
  qed
  then show ?thesis by (simp add: filter_empty_conv)
qed

text \<open>
  Claim C6. In a table with distinct ids (the primary key), one pass of \<open>qualify_all\<close>
  returns normally with the number of NEW leads whose score reaches \<open>min_score\<close>. Row by
  row, a lead that was NEW has the stage QUALIFIED when \<open>rule_based_score\<close> gives it at least
  \<open>min_score\<close> and DISQUALIFIED otherwise, its other columns and \<open>created_at\<close> as before; a
  lead in any other stage is left exactly as it was. No lead is NEW afterwards, the stage
  was written once for each NEW lead (one reading of the clock each), the outreach table is
  untouched, and a second pass, with any thresholds, changes nothing and counts 0.
\<close>

theorem qualify_all_resolves_new:
  assumes pk: "distinct (map (lid \<circ> row_lead) (leads w))"
  shows "fst (qualify_all E mr mv ms w)
           = Inr (int (length (filter (\<lambda>row. fst (rule_based_score (from_row row) mr mv) \<ge> ms)
                                 (select_by_stage w ''NEW''))))
       \<and> list_all2
           (\<lambda>row row'.
              if stage (row_lead row) = ''NEW''
              then row_lead row' = (row_lead row)\<lparr> stage :=
                       (if fst (rule_based_score (from_row row) mr mv) \<ge> ms
                        then ''QUALIFIED'' else ''DISQUALIFIED'') \<rparr>
                   \<and> created_at row' = created_at row
              else row' = row)
           (leads w) (leads (snd (qualify_all E mr mv ms w)))
       \<and> select_by_stage (snd (qualify_all E mr mv ms w)) ''NEW'' = []
       \<and> clock_reads (snd (qualify_all E mr mv ms w))
           = clock_reads w + length (select_by_stage w ''NEW'')
       \<and> outreach (snd (qualify_all E mr mv ms w)) = outreach w
       \<and> qualify_all E mr2 mv2 ms2 (snd (qualify_all E mr mv ms w))
           = (Inr 0, snd (qualify_all E mr mv ms w))"
proof -
  let ?rows = "select_by_stage w ''NEW''"
  let ?w' = "snd (qualify_all E mr mv ms w)"
  let ?R = "\<lambda>row row'.
              if stage (row_lead row) = ''NEW''
              then row_lead row' = (row_lead row)\<lparr> stage :=
                       (if fst (rule_based_score (from_row row) mr mv) \<ge> ms
                        then ''QUALIFIED'' else ''DISQUALIFIED'') \<rparr>
                   \<and> created_at row' = created_at row
              else row' = row"
  have sub: "set ?rows \<subseteq> set (leads w)" and new: "\<And>x. x \<in> set ?rows \<Longrightarrow> stage (row_lead x) = ''NEW''"
    by (auto simp: select_by_stage_def)
  have dist: "distinct (map (lid \<circ> row_lead) ?rows)"
    unfolding select_by_stage_def using pk by (rule distinct_map_filter)
  have rel: "list_all2 ?R (leads w) (leads ?w')"
    unfolding qualify_all_def
  proof (rule list.rel_mono_strong [OF qualify_loop_rows [OF dist, of mr mv ms w E 0]])
    fix row row'
    assume row: "row \<in> set (leads w)"
      and h: "(lid (row_lead row) \<notin> set (map (lid \<circ> row_lead) ?rows) \<longrightarrow> row' = row)
            \<and> (\<forall>x \<in> set ?rows. lid (row_lead x) = lid (row_lead row) \<longrightarrow>
                  row_lead row' = (row_lead row)\<lparr> stage := (if passes mr mv ms x
                                                             then ''QUALIFIED'' else ''DISQUALIFIED'') \<rparr>
                  \<and> created_at row' = created_at row)"
    show "?R row row'"
    proof (cases "stage (row_lead row) = ''NEW''")
      case True
      with row have "row \<in> set ?rows" by (simp add: select_by_stage_def)
      with h have "row_lead row' = (row_lead row)\<lparr> stage := (if passes mr mv ms row
                                                             then ''QUALIFIED'' else ''DISQUALIFIED'') \<rparr>
                  \<and> created_at row' = created_at row" by blast
      with True show ?thesis by (simp add: passes_def)
    next
      case False
      have "lid (row_lead row) \<notin> set (map (lid \<circ> row_lead) ?rows)"
      proof
        assume "lid (row_lead row) \<in> set (map (lid \<circ> row_lead) ?rows)"
        then obtain x where x: "x \<in> set ?rows" "(lid \<circ> row_lead) x = (lid \<circ> row_lead) row" by auto
        from distinct_key_eq [OF pk _ row x(2)] x(1) sub have "x = row" by blast
        with new [OF x(1)] False show False by simp
      qed
      with h False show ?thesis by simp
    qed
  qed
  have none: "select_by_stage ?w' ''NEW'' = []"
    unfolding select_by_stage_def
  proof (rule list_all2_filter_empty [OF rel])
    fix row row' assume "?R row row'"
    then show "\<not> stage (row_lead row') = ''NEW''"
      by (cases "stage (row_lead row) = ''NEW''") auto
  qed
  have res: "fst (qualify_all E mr mv ms w)
           = Inr (int (length (filter (\<lambda>row. fst (rule_based_score (from_row row) mr mv) \<ge> ms) ?rows)))"
    using qualify_loop_result [of E mr mv ms ?rows 0 w]
    by (simp add: qualify_all_def passes_def [abs_def])
  have clk: "clock_reads ?w' = clock_reads w + length ?rows"
    and out: "outreach ?w' = outreach w"
    using qualify_loop_result [of E mr mv ms ?rows 0 w] by (simp_all add: qualify_all_def)
  have again: "qualify_all E mr2 mv2 ms2 ?w' = (Inr 0, ?w')"
    using none by (simp add: qualify_all_def [of E mr2 mv2 ms2])
  from res rel none clk out again show ?thesis by blast
qed

theorem qualify_all_resolves_new_witness:
  "distinct (map (lid \<circ> row_lead) (leads world_ab))
   \<and> fst (qualify_all env0 3.8 5 3 world_ab) = Inr 1
   \<and> select_by_stage (snd (qualify_all env0 3.8 5 3 world_ab)) ''NEW'' = []
   \<and> clock_reads (snd (qualify_all env0 3.8 5 3 world_ab)) = 6"
proof -
  have pk: "distinct (map (lid \<circ> row_lead) (leads world_ab))"
    by (simp add: world_ab_def lead_a_def lead_b_def)
  have sel: "select_by_stage world_ab ''NEW'' = leads world_ab"
    by (simp add: select_by_stage_def world_ab_def lead_a_def lead_b_def)
  have cnt: "length (filter (\<lambda>row. fst (rule_based_score (from_row row) 3.8 5) \<ge> 3) (leads world_ab)) = 1"
    by (simp add: world_ab_def lead_a_def lead_b_def rule_based_score_def from_row_def truthy_def)
  show ?thesis
    using qualify_all_resolves_new [OF pk, of env0 "3.8" 5 3] pk
    unfolding sel cnt by (simp add: world_ab_def)
qed

section \<open>The dispatcher: \<open>send_all\<close>\<close>

lemma record_attempt_outreach:
  "outreach (record_attempt E r ok mid w) =
     map (\<lambda>m. if oid m = r_oid r
               then m\<lparr> status := (if ok then ''SENT'' else ''ERROR''),
                       sent_at := Some (time_at E (clock_reads w)), message_id := mid \<rparr>
               else m) (outreach w)"
  by (simp add: record_attempt_def now_def Let_def split_def)

lemma record_attempt_leads:
  "leads (record_attempt E r ok mid w) =
     (if ok then map (\<lambda>row. if lid (row_lead row) = r_lid r
                            then row\<lparr> row_lead := (row_lead row)\<lparr> stage := ''CONTACTED'' \<rparr>,
                                      updated_at := time_at E (Suc (clock_reads w)) \<rparr>
                            else row) (leads w)
      else leads w)"
  by (simp add: record_attempt_def now_def Let_def split_def)


lemma send_attempt:
  "\<exists>mid w1.
     (if dry then (Inr (True, None), w) else send_email E (r_email r) (r_subject r) (r_body r) w)
       = (Inr (attempt_ok E dry (smtp_sessions w) r, mid), w1)
     \<and> (\<not> attempt_ok E dry (smtp_sessions w) r \<longrightarrow> mid = None)
     \<and> leads w1 = leads w \<and> outreach w1 = outreach w \<and> clock_reads w1 = clock_reads w
     \<and> smtp_sessions w1 = (if dry \<or> \<not> smtp_configured E then smtp_sessions w
                            else Suc (smtp_sessions w))"
  by (auto simp: send_email_def attempt_ok_def uuid4_def Let_def split: smtp_reply.splits)

lemma send_loop_Cons:
  "\<exists>mid w1.
     send_loop E dry (r # rs) sent w
       = send_loop E dry rs (if attempt_ok E dry (smtp_sessions w) r then sent + 1 else sent)
           (record_attempt E r (attempt_ok E dry (smtp_sessions w) r) mid w1)
     \<and> (\<not> attempt_ok E dry (smtp_sessions w) r \<longrightarrow> mid = None)
     \<and> leads w1 = leads w \<and> outreach w1 = outreach w \<and> clock_reads w1 = clock_reads w
     \<and> smtp_sessions w1 = (if dry \<or> \<not> smtp_configured E then smtp_sessions w
                            else Suc (smtp_sessions w))"
proof -
  from send_attempt [of dry w E r] obtain mid w1 where
    a: "(if dry then (Inr (True, None), w) else send_email E (r_email r) (r_subject r) (r_body r) w)
       = (Inr (attempt_ok E dry (smtp_sessions w) r, mid), w1)"
    and b: "(\<not> attempt_ok E dry (smtp_sessions w) r \<longrightarrow> mid = None)
     \<and> leads w1 = leads w \<and> outreach w1 = outreach w \<and> clock_reads w1 = clock_reads w
     \<and> smtp_sessions w1 = (if dry \<or> \<not> smtp_configured E then smtp_sessions w
                            else Suc (smtp_sessions w))"
    by blast
  have "send_loop E dry (r # rs) sent w
       = send_loop E dry rs (if attempt_ok E dry (smtp_sessions w) r then sent + 1 else sent)
           (record_attempt E r (attempt_ok E dry (smtp_sessions w) r) mid w1)"
    by (simp only: send_loop.simps a) simp
  with b show ?thesis by blast
qed











lemma world_drafts_snapshot:
  "select_drafts world_drafts =
     [\<lparr> r_oid = ''m1'', r_subject = ''Quick question about Acme Dental'', r_body = ''Hi Acme'',
        r_email = Some ''info@acme.example'', r_lid = ''a'' \<rparr>,
      \<lparr> r_oid = ''m2'', r_subject = ''Quick question about Bright Smiles'', r_body = ''Hi Bright'',
        r_email = Some ''team@bright.example'', r_lid = ''b'' \<rparr>,
      \<lparr> r_oid = ''m3'', r_subject = ''Quick question about City Gym'', r_body = ''Hi City'',
        r_email = Some ''hello@citygym.example'', r_lid = ''c'' \<rparr>]"
  by (simp add: select_drafts_def world_drafts_def lead_a_def lead_b_def lead_c_def)

lemma env0_configured: "smtp_configured env0"
  by (simp add: smtp_configured_def env0_def truthy_def)







section \<open>Messages in flight\<close>

lemma draft_loop_unchanged:
  "snd (draft_loop E offer rows n w) = w
   \<and> fst (draft_loop E offer rows n w)
       = (if list_ex (\<lambda>row. truthy (email (from_row row))) rows
          then Inl (KeyError (''first_name or '' @ [CHR 0x27] @ ''there'' @ [CHR 0x27]))
          else Inr n)"
  by (induction rows arbitrary: n) (simp_all add: generate_email_body_KeyError Let_def)

lemma search_loop_outreach:
  "outreach (snd (search_loop E site items w)) = outreach w"
  by (induction items arbitrary: w) (simp_all add: uuid4_def Let_def split_def)

lemma upsert_each_Cons:
  "upsert_each E (l # ls) w =
     (if storable l then upsert_each E ls (snd (upsert_lead E l w))
      else (Inl int_too_large, snd (upsert_lead E l w)))"
  using upsert_lead_result [of E l w] by (cases "upsert_lead E l w") auto

lemma upsert_each_outreach:
  "outreach (snd (upsert_each E ls w)) = outreach w"
proof (induction ls arbitrary: w)
  case Nil
  show ?case by simp
next
  case (Cons l ls)
  show ?case unfolding upsert_each_Cons by (simp add: Cons.IH upsert_lead_frame)
qed

lemma cmd_search_outreach:
  "outreach (snd (cmd_search E site items w)) = outreach w"
  by (simp add: cmd_search_def split_def Let_def upsert_each_outreach search_loop_outreach)

lemma send_loop_outreach_weak:
  "list_all2
     (\<lambda>m m'. m' = m \<or> (lead_id m' = lead_id m \<and> (status m' = ''SENT'' \<or> status m' = ''ERROR'')))
     (outreach w) (outreach (snd (send_loop E dry rs sent w)))"
proof (induction rs arbitrary: sent w)
  case Nil
  show ?case by (simp add: list.rel_refl)
next
  case (Cons r rs)
  let ?ok = "attempt_ok E dry (smtp_sessions w) r"
  from send_loop_Cons [of E dry r rs sent w] obtain mid w1 where
    step: "send_loop E dry (r # rs) sent w
       = send_loop E dry rs (if ?ok then sent + 1 else sent) (record_attempt E r ?ok mid w1)"
    and w1: "outreach w1 = outreach w"
    by blast
  let ?g = "\<lambda>m. if oid m = r_oid r
               then m\<lparr> status := (if ?ok then ''SENT'' else ''ERROR''),
                       sent_at := Some (time_at E (clock_reads w1)), message_id := mid \<rparr>
               else m"
  have out2: "outreach (record_attempt E r ?ok mid w1) = map ?g (outreach w)"
    by (simp add: record_attempt_outreach w1)
  from Cons.IH [of "record_attempt E r ?ok mid w1" "if ?ok then sent + 1 else sent"]
  have ih: "list_all2
     (\<lambda>m m'. m' = ?g m \<or> (lead_id m' = lead_id (?g m) \<and> (status m' = ''SENT'' \<or> status m' = ''ERROR'')))
     (outreach w) (outreach (snd (send_loop E dry rs (if ?ok then sent + 1 else sent)
                                   (record_attempt E r ?ok mid w1))))"
    unfolding out2 list_all2_map1 .
  show ?case
    unfolding step
    by (rule list.rel_mono_strong [OF ih]) auto
qed

lemma list_all2_filter_length_le:
  assumes "list_all2 R xs ys" and "\<And>x y. R x y \<Longrightarrow> P y \<Longrightarrow> P x"
  shows "length (filter P ys) \<le> length (filter P xs)"
  using assms by (induction rule: list_all2_induct) auto

lemma send_all_in_flight:
  "length (filter (in_flight l) (outreach (snd (send_all E dry w))))
     \<le> length (filter (in_flight l) (outreach w))"
  unfolding send_all_def
  by (rule list_all2_filter_length_le [OF send_loop_outreach_weak]) (auto simp: in_flight_def)

lemma qualify_all_outreach:
  "outreach (snd (qualify_all E mr mv ms w)) = outreach w"
  using qualify_loop_result [of E mr mv ms "select_by_stage w ''NEW''" 0 w]
  by (simp add: qualify_all_def)

lemma draft_emails_outreach:
  "outreach (snd (draft_emails_for_stage E st offer w)) = outreach w"
  by (simp add: draft_emails_for_stage_def draft_loop_unchanged)

lemma reachable_in_flight:
  "reachable_from E w0 w \<Longrightarrow>
     length (filter (in_flight l) (outreach w)) \<le> length (filter (in_flight l) (outreach w0))"
proof (induction rule: reachable_from.induct)
  case by_start
  show ?case by simp
next
  case (by_search w site_email items)
  then show ?case by (simp add: cmd_search_outreach)
next
  case (by_upsert w l')
  then show ?case by (simp add: upsert_lead_frame)
next
  case (by_set_stage w i st)
  then show ?case by (simp add: set_stage_frame)
next
  case (by_qualify w min_rating min_reviews min_score)
  then show ?case by (simp add: qualify_all_outreach)
next
  case (by_draft w st offer)
  then show ?case by (simp add: draft_emails_outreach)
next
  case (by_send w dry_run)
  from send_all_in_flight [of l E dry_run w] by_send.IH show ?case by (rule order_trans)
qed

text \<open>
  Claim C2. Take any state in which every lead has at most one message that is DRAFT or
  SENDING (the empty database is one), and any state reached from it by searches, upserts,
  stage changes, qualification passes, draft steps and dispatcher runs, in any order and
  number. There too every lead has at most one such message, and one more draft step
  leaves the outreach table exactly as it is. No operation of the script adds an in-flight
  message: the dispatcher only turns DRAFT into SENT or ERROR, and the draft step, as it
  is written, stops at the first lead with an e-mail address, where the template raises
  \<open>KeyError\<close> before the \<open>INSERT\<close> is reached.
\<close>

theorem at_most_one_in_flight:
  assumes init: "\<forall>l. length (filter (in_flight l) (outreach w0)) \<le> 1"
    and reach: "reachable_from E w0 w"
  shows "length (filter (in_flight l) (outreach w)) \<le> 1
       \<and> outreach (snd (draft_emails_for_stage E st offer w)) = outreach w"
proof
  from reachable_in_flight [OF reach, of l] init
  show "length (filter (in_flight l) (outreach w)) \<le> 1" by (meson order_trans)
  show "outreach (snd (draft_emails_for_stage E st offer w)) = outreach w"
    by (rule draft_emails_outreach)
qed

theorem at_most_one_in_flight_witness:
  "(\<forall>l. length (filter (in_flight l) (outreach world_drafts)) \<le> 1)
   \<and> reachable_from env0 world_drafts
        (snd (draft_emails_for_stage env0 ''QUALIFIED'' ''a free audit''
               (snd (draft_emails_for_stage env0 ''QUALIFIED'' ''a free audit'' world_drafts))))
   \<and> length (filter (in_flight ''a'')
        (outreach (snd (draft_emails_for_stage env0 ''QUALIFIED'' ''a free audit''
               (snd (draft_emails_for_stage env0 ''QUALIFIED'' ''a free audit'' world_drafts)))))) = 1"
proof -
  have init: "\<forall>l. length (filter (in_flight l) (outreach world_drafts)) \<le> 1"
    by (auto simp: world_drafts_def in_flight_def)
  have reach: "reachable_from env0 world_drafts
        (snd (draft_emails_for_stage env0 ''QUALIFIED'' ''a free audit''
               (snd (draft_emails_for_stage env0 ''QUALIFIED'' ''a free audit'' world_drafts))))"
    by (intro reachable_from.by_draft reachable_from.by_start)
  have one: "length (filter (in_flight ''a'') (outreach world_drafts)) = 1"
    by (simp add: world_drafts_def in_flight_def)
  from at_most_one_in_flight [OF init reach, of "''a''" "''QUALIFIED''" "''a free audit''"]
  have same: "outreach (snd (draft_emails_for_stage env0 ''QUALIFIED'' ''a free audit''
               (snd (draft_emails_for_stage env0 ''QUALIFIED'' ''a free audit'' world_drafts))))
        = outreach world_drafts"
    by (simp add: draft_emails_outreach)
  show ?thesis
    using init reach one unfolding same by simp
qed

section \<open>Primary keys\<close>

lemma map_key_update:
  assumes "\<And>x. f (g x) = f x"
  shows "map f (map (\<lambda>x. if P x then g x else x) xs) = map f xs"
  using assms by (induction xs) auto

lemma set_stage_ids:
  "map (lid \<circ> row_lead) (leads (snd (set_stage E i st w))) = map (lid \<circ> row_lead) (leads w)"
  unfolding set_stage_leads by (rule map_key_update) simp

lemma upsert_lead_keys: "keys_ok w \<Longrightarrow> keys_ok (snd (upsert_lead E l w))"
proof (cases "storable l")
  case False
  assume "keys_ok w"
  with False show ?thesis by (simp add: keys_ok_def upsert_lead_frame upsert_lead_refused)
next
  case st: True
  assume ok: "keys_ok w"
  show ?thesis
  proof (cases "list_ex (has_id (lid l)) (leads w)")
    case True
    have "map (lid \<circ> row_lead) (leads (snd (upsert_lead E l w))) = map (lid \<circ> row_lead) (leads w)"
      using True unfolding upsert_lead_leads [OF st] by (simp only: if_True) (rule map_key_update, simp)
    with ok show ?thesis by (simp add: keys_ok_def upsert_lead_frame)
  next
    case False
    then have "lid l \<notin> set (map (lid \<circ> row_lead) (leads w))"
      by (auto simp: list_ex_iff)
    with ok False show ?thesis
      by (simp add: keys_ok_def upsert_lead_frame upsert_lead_leads [OF st])
  qed
qed

lemma upsert_each_keys: "keys_ok w \<Longrightarrow> keys_ok (snd (upsert_each E ls w))"
proof (induction ls arbitrary: w)
  case Nil
  then show ?case by simp
next
  case (Cons l ls)
  then show ?case unfolding upsert_each_Cons by (simp add: upsert_lead_keys)
qed

lemma search_loop_tables:
  "leads (snd (search_loop E site items w)) = leads w
   \<and> outreach (snd (search_loop E site items w)) = outreach w"
  by (induction items arbitrary: w) (simp_all add: uuid4_def Let_def split_def)

lemma cmd_search_keys: "keys_ok w \<Longrightarrow> keys_ok (snd (cmd_search E site items w))"
proof -
  assume ok: "keys_ok w"
  have "keys_ok (snd (search_loop E site items w))"
    using ok by (simp add: keys_ok_def search_loop_tables)
  then show ?thesis
    by (simp add: cmd_search_def split_def Let_def upsert_each_keys)
qed

lemma qualify_loop_ids:
  "map (lid \<circ> row_lead) (leads (snd (qualify_loop E mr mv ms rows n w)))
     = map (lid \<circ> row_lead) (leads w)"
proof (induction rows arbitrary: n w)
  case Nil
  show ?case by simp
next
  case (Cons x rows)
  show ?case unfolding qualify_loop_Cons by (simp only: Cons.IH set_stage_ids)
qed

lemma qualify_all_keys: "keys_ok w \<Longrightarrow> keys_ok (snd (qualify_all E mr mv ms w))"
  by (simp add: keys_ok_def qualify_all_outreach) (simp add: qualify_all_def qualify_loop_ids)

lemma record_attempt_ids:
  "map (lid \<circ> row_lead) (leads (record_attempt E r ok mid w)) = map (lid \<circ> row_lead) (leads w)"
  "map oid (outreach (record_attempt E r ok mid w)) = map oid (outreach w)"
proof -
  show "map (lid \<circ> row_lead) (leads (record_attempt E r ok mid w)) = map (lid \<circ> row_lead) (leads w)"
  proof (cases ok)
    case True
    show ?thesis unfolding record_attempt_leads using True
      by (simp only: if_True) (rule map_key_update, simp)
  next
    case False
    then show ?thesis by (simp add: record_attempt_leads)
  qed
  show "map oid (outreach (record_attempt E r ok mid w)) = map oid (outreach w)"
    unfolding record_attempt_outreach by (rule map_key_update) simp
qed

lemma send_loop_ids:
  "map (lid \<circ> row_lead) (leads (snd (send_loop E dry rs sent w))) = map (lid \<circ> row_lead) (leads w)
   \<and> map oid (outreach (snd (send_loop E dry rs sent w))) = map oid (outreach w)"
proof (induction rs arbitrary: sent w)
  case Nil
  show ?case by simp
next
  case (Cons r rs)
  let ?ok = "attempt_ok E dry (smtp_sessions w) r"
  from send_loop_Cons [of E dry r rs sent w] obtain mid w1 where
    step: "send_loop E dry (r # rs) sent w
       = send_loop E dry rs (if ?ok then sent + 1 else sent) (record_attempt E r ?ok mid w1)"
    and w1: "leads w1 = leads w" "outreach w1 = outreach w"
    by blast
  show ?case
    unfolding step by (simp only: Cons.IH record_attempt_ids w1)
qed

lemma send_all_keys: "keys_ok w \<Longrightarrow> keys_ok (snd (send_all E dry w))"
  by (simp add: keys_ok_def send_all_def send_loop_ids)

lemma set_stage_keys: "keys_ok w \<Longrightarrow> keys_ok (snd (set_stage E i st w))"
  by (simp add: keys_ok_def set_stage_frame) (simp add: set_stage_ids)

lemma draft_keys: "keys_ok w \<Longrightarrow> keys_ok (snd (draft_emails_for_stage E st offer w))"
  by (simp add: draft_emails_for_stage_def draft_loop_unchanged)

text \<open>
  The primary keys stay distinct: the hypotheses on distinct ids in the statements above
  hold in every state the script reaches from a database that satisfies them.
\<close>

lemma reachable_keys_ok:
  "reachable_from E w0 w \<Longrightarrow> keys_ok w0 \<Longrightarrow> keys_ok w"
  by (induction rule: reachable_from.induct)
     (simp_all add: cmd_search_keys upsert_lead_keys set_stage_keys qualify_all_keys
        draft_keys send_all_keys)

lemma world0_keys_ok: "keys_ok world0"
  by (simp add: keys_ok_def world0_def)

section \<open>The pace of the dispatcher\<close>




lemma tick_facts:
  "last_sent (tick T p) = last_sent p"
  "clock (tick T p) = clock p + lag T (steps p)"
  by (simp_all add: tick_def)





end
